theory Spec2Isabelle
  imports
    Complex_Main
    "HOL-Library.Char_ord"
    "HOL-Library.List_Lexorder"
    "HOL-Library.Sublist"
    "HOL-Library.AList"
    "HOL-Library.Multiset"
begin

section \<open>JSON documents\<close>

text \<open>
  A source document is a Python dict from field names to JSON scalars. Dicts keep insertion
  order, so a document is an association list with distinct keys; assignment
  \<^verbatim>\<open>d[k] = v\<close> is \<^const>\<open>AList.update\<close> (replace in place, else append).
  Floats and nested values do not occur in the properties below and are left out.
  Strings are compared as Python compares them: lexicographically by code point.
\<close>

datatype jval = JNull | JBool bool | JNum int | JStr string

type_synonym doc = "(string \<times> jval) list"

text \<open>\<^verbatim>\<open>doc.get(k)\<close>: the value, or \<^verbatim>\<open>None\<close> when the key is absent.\<close>

definition doc_get :: "doc \<Rightarrow> string \<Rightarrow> jval" where
  "doc_get d k = (case map_of d k of None \<Rightarrow> JNull | Some v \<Rightarrow> v)"

text \<open>Python truthiness of a JSON scalar.\<close>

fun truthy :: "jval \<Rightarrow> bool" where
  "truthy JNull = False"
| "truthy (JBool b) = b"
| "truthy (JNum n) = (n \<noteq> 0)"
| "truthy (JStr s) = (s \<noteq> [])"

section \<open>The streaming publisher (kafka\_docker\_temphum.py)\<close>

text \<open>The exceptions that the modelled code can meet.\<close>

datatype py_exception =
    JSONDecodeError
  | RequestException
  | KafkaError
  | TypeError
  | S3Error
  | ParquetError

subsection \<open>Checkpoint file\<close>

text \<open>
  What the checkpoint path holds: nothing, bytes that \<^verbatim>\<open>json.load\<close> rejects, or a JSON
  object whose \<^verbatim>\<open>last_timestamp\<close> entry is the given optional string.
\<close>

datatype ckpt_file = Missing | Malformed | CkptObject "string option"

fun load_checkpoint :: "ckpt_file \<Rightarrow> string \<Rightarrow> py_exception + string" where
  "load_checkpoint Missing default_ts = Inr default_ts"
| "load_checkpoint Malformed default_ts = Inl JSONDecodeError"
| "load_checkpoint (CkptObject None) default_ts = Inr default_ts"
| "load_checkpoint (CkptObject (Some ts)) default_ts = Inr ts"

definition save_checkpoint :: "string \<Rightarrow> ckpt_file" where
  "save_checkpoint last_ts = CkptObject (Some last_ts)"

subsection \<open>Projection, canonical schema, emptiness\<close>

definition filter_fields :: "doc \<Rightarrow> string list \<Rightarrow> doc" where
  "filter_fields d keep_fields =
     (if keep_fields = [] then d
      else
        let filtered =
              fold (\<lambda>field acc. case map_of d field of
                                   Some v \<Rightarrow> AList.update field v acc
                                 | None \<Rightarrow> acc)
                   keep_fields []
        in case map_of d ''@timestamp'' of
             Some v \<Rightarrow> (if map_of filtered ''@timestamp'' = None
                        then AList.update ''@timestamp'' v filtered else filtered)
           | None \<Rightarrow> filtered)"

definition base_schema :: doc where
  "base_schema =
     [(''@timestamp'', JNull), (''objId'', JNull), (''rsctypeId'', JNull),
      (''TEMPERATURE'', JNull), (''TEMPERATURE1'', JNull),
      (''HUMIDITY'', JNull), (''HUMIDITY1'', JNull)]"

definition apply_base_schema :: "doc \<Rightarrow> doc \<Rightarrow> doc" where
  "apply_base_schema d schema =
     fold (\<lambda>(k, v) new_doc. if k \<in> fst ` set new_doc then AList.update k v new_doc
                             else new_doc)
          d schema"

definition is_effectively_empty :: "doc \<Rightarrow> bool" where
  "is_effectively_empty d = list_all (\<lambda>(k, v). k = ''@timestamp'' \<or> v = JNull) d"

definition unified_doc :: "string list \<Rightarrow> doc \<Rightarrow> doc" where
  "unified_doc keep_fields d = apply_base_schema (filter_fields d keep_fields) base_schema"

subsection \<open>One tick of the polling loop\<close>

text \<open>
  Observable actions of a tick, in program order: a payload handed to the producer, a
  completed flush, a rewrite of the checkpoint file.
\<close>

datatype event = Sent doc | Flushed | Saved string

text \<open>
  \<^verbatim>\<open>if doc_ts and doc_ts > local_max_ts: local_max_ts = doc_ts\<close>. A truthy value that is
  not a string cannot be compared with the string cursor: Python raises \<^verbatim>\<open>TypeError\<close>.
\<close>

fun advance_ts :: "jval \<Rightarrow> string \<Rightarrow> py_exception + string" where
  "advance_ts (JStr s) local_max_ts = Inr (if s \<noteq> [] \<and> s > local_max_ts then s else local_max_ts)"
| "advance_ts v local_max_ts = (if truthy v then Inl TypeError else Inr local_max_ts)"

text \<open>
  The \<^verbatim>\<open>for doc in new_docs\<close> loop. \<open>send_ok n\<close> says whether the \<open>n\<close>-th call of
  \<^verbatim>\<open>producer.send\<close> in this tick returns; the result is the events emitted and either the
  exception that ended the loop or the final \<^verbatim>\<open>local_max_ts\<close>.
\<close>

fun publish_loop ::
  "(nat \<Rightarrow> bool) \<Rightarrow> string list \<Rightarrow> doc list \<Rightarrow> nat \<Rightarrow> string \<Rightarrow> event list \<times> (py_exception + string)"
where
  "publish_loop send_ok keep_fields [] n local_max_ts = ([], Inr local_max_ts)"
| "publish_loop send_ok keep_fields (d # ds) n local_max_ts =
     (let doc_ts = doc_get d ''@timestamp'';
          u = unified_doc keep_fields d
      in if is_effectively_empty u then publish_loop send_ok keep_fields ds n local_max_ts
         else if \<not> send_ok n then ([], Inl KafkaError)
         else (case advance_ts doc_ts local_max_ts of
                 Inl e \<Rightarrow> ([Sent u], Inl e)
               | Inr m \<Rightarrow>
                   (let (tr, r) = publish_loop send_ok keep_fields ds (Suc n) m
                    in (Sent u # tr, r))))"

text \<open>
  The environment of one tick: what \<^verbatim>\<open>fetch_new_docs\<close> returns (\<open>None\<close> when the request
  raises), which sends return, and whether \<^verbatim>\<open>producer.flush\<close> returns.
\<close>

record tick_env =
  fetch_result :: "doc list option"
  send_ok :: "nat \<Rightarrow> bool"
  flush_ok :: bool

record pub_state =
  checkpoint :: ckpt_file
  last_timestamp :: string

datatype tick_result = TickOk | TickRaised py_exception

text \<open>
  The body of \<^verbatim>\<open>while True\<close> in \<^verbatim>\<open>main\<close>: every exception is caught by the enclosing
  \<^verbatim>\<open>except Exception\<close>, which only prints. Writing the local checkpoint file is taken to
  succeed.
\<close>

definition tick :: "string list \<Rightarrow> tick_env \<Rightarrow> pub_state \<Rightarrow> pub_state \<times> event list \<times> tick_result" where
  "tick keep_fields env st =
     (case fetch_result env of
        None \<Rightarrow> (st, [], TickRaised RequestException)
      | Some new_docs \<Rightarrow>
          if new_docs = [] then (st, [], TickOk)
          else (case publish_loop (send_ok env) keep_fields new_docs 0 (last_timestamp st) of
                  (tr, Inl e) \<Rightarrow> (st, tr, TickRaised e)
                | (tr, Inr local_max_ts) \<Rightarrow>
                    if \<not> flush_ok env then (st, tr, TickRaised KafkaError)
                    else if local_max_ts \<noteq> last_timestamp st
                    then (\<lparr>checkpoint = save_checkpoint local_max_ts,
                           last_timestamp = local_max_ts\<rparr>,
                          tr @ [Flushed, Saved local_max_ts], TickOk)
                    else (st, tr @ [Flushed], TickOk)))"

definition run_ticks :: "string list \<Rightarrow> tick_env list \<Rightarrow> pub_state \<Rightarrow> pub_state" where
  "run_ticks keep_fields envs st = fold (\<lambda>env s. fst (tick keep_fields env s)) envs st"

text \<open>The records of a tick that pass the emptiness check, and their string timestamps.\<close>

definition survivors :: "string list \<Rightarrow> doc list \<Rightarrow> doc list" where
  "survivors keep_fields ds = filter (\<lambda>d. \<not> is_effectively_empty (unified_doc keep_fields d)) ds"

fun ts_strings :: "doc list \<Rightarrow> string list" where
  "ts_strings [] = []"
| "ts_strings (d # ds) =
     (case doc_get d ''@timestamp'' of JStr s \<Rightarrow> s # ts_strings ds | _ \<Rightarrow> ts_strings ds)"


section \<open>The collector and merger (streaming\_pipeline.py)\<close>

subsection \<open>Data frames\<close>

text \<open>
  A data frame is the list of its rows. Rows are values of any type \<open>'r\<close>, compared as
  whole rows; \<open>ts\<close> reads the \<^verbatim>\<open>@timestamp\<close> column of a row in a linear order.
  \<^verbatim>\<open>drop_duplicates()\<close> keeps the first occurrence of every row;
  \<^verbatim>\<open>sort_values('@timestamp')\<close> sorts ascending by that column.
\<close>

fun dedup_seen :: "'r list \<Rightarrow> 'r list \<Rightarrow> 'r list" where
  "dedup_seen seen [] = []"
| "dedup_seen seen (x # xs) =
     (if x \<in> set seen then dedup_seen seen xs else x # dedup_seen (x # seen) xs)"

definition drop_duplicates :: "'r list \<Rightarrow> 'r list" where
  "drop_duplicates df = dedup_seen [] df"

definition sort_values :: "('r \<Rightarrow> 'k::linorder) \<Rightarrow> 'r list \<Rightarrow> 'r list" where
  "sort_values ts df = sort_key ts df"

text \<open>
  The record computation of a merge cycle, for any sorting routine \<open>srt\<close>: the loaded minute
  frames are concatenated, deduplicated and sorted; when the daily artifact exists, the
  result is appended to its rows, deduplicated and sorted again.
\<close>

definition merge_frames_with ::
  "('r list \<Rightarrow> 'r list) \<Rightarrow> 'r list option \<Rightarrow> 'r list list \<Rightarrow> 'r list"
where
  "merge_frames_with srt existing dfs =
     (let merged_df = srt (drop_duplicates (concat dfs))
      in case existing of
           None \<Rightarrow> merged_df
         | Some existing_df \<Rightarrow> srt (drop_duplicates (existing_df @ merged_df)))"

definition merge_frames :: "('r \<Rightarrow> 'k::linorder) \<Rightarrow> 'r list option \<Rightarrow> 'r list list \<Rightarrow> 'r list" where
  "merge_frames ts existing dfs = merge_frames_with (sort_values ts) existing dfs"

subsection \<open>Object store\<close>

text \<open>
  The bucket maps object names to contents: a Parquet file holding rows, or bytes that
  \<^verbatim>\<open>pd.read_parquet\<close> rejects. The fault record says which client calls raise.
\<close>

datatype 'r blob = Parquet "'r list" | Corrupt

type_synonym 'r store = "(string \<times> 'r blob) list"

record faults =
  list_raises :: bool
  get_raises :: "string \<Rightarrow> bool"
  put_raises :: "string \<Rightarrow> bool"
  remove_raises :: "string \<Rightarrow> bool"

text \<open>
  \<^verbatim>\<open>fget_object\<close> followed by \<^verbatim>\<open>pd.read_parquet\<close>: the rows, an \<^verbatim>\<open>S3Error\<close> with code
  \<^verbatim>\<open>NoSuchKey\<close>, another failure of the download, or a deserialization error.
\<close>

datatype 'r read_result = Frame "'r list" | NoSuchKey | S3Failure | Unreadable

definition read_object :: "faults \<Rightarrow> 'r store \<Rightarrow> string \<Rightarrow> 'r read_result" where
  "read_object flt st name =
     (if get_raises flt name then S3Failure
      else case map_of st name of
             None \<Rightarrow> NoSuchKey
           | Some Corrupt \<Rightarrow> Unreadable
           | Some (Parquet rows) \<Rightarrow> Frame rows)"

text \<open>
  Observable actions on the store, in program order, with whether the call returned;
  and the warnings and errors logged.
\<close>

datatype log_level = LWarning | LError

datatype io_event = PutObject string bool | RemoveObject string bool | Log log_level

datatype outcome = Returned | Raised py_exception

subsection \<open>The merge cycle\<close>

text \<open>The listing under \<^verbatim>\<open>realtime/\<close>, filtered by the two substring tests.\<close>

definition target_files :: "string \<Rightarrow> 'r store \<Rightarrow> string list" where
  "target_files minute_str st =
     filter (\<lambda>name. sublist (''rt_'' @ minute_str) name \<and> sublist ''_kst.parquet'' name)
            (filter (prefix ''realtime/'') (map fst st))"

text \<open>
  The loading loop: a file enters \<^verbatim>\<open>dfs\<close> and \<^verbatim>\<open>processed_files\<close> when it downloads,
  parses and is not empty; every exception is logged and the loop continues.
\<close>

fun load_minute_files ::
  "faults \<Rightarrow> 'r store \<Rightarrow> string list \<Rightarrow> 'r list list \<times> string list \<times> io_event list"
where
  "load_minute_files flt st [] = ([], [], [])"
| "load_minute_files flt st (file_name # rest) =
     (let (dfs, processed_files, evs) = load_minute_files flt st rest
      in case read_object flt st file_name of
           Frame df \<Rightarrow>
             if df \<noteq> [] then (df # dfs, file_name # processed_files, evs)
             else (dfs, processed_files, evs)
         | _ \<Rightarrow> (dfs, processed_files, Log LError # evs))"

text \<open>The deletion loop: a failing \<^verbatim>\<open>remove_object\<close> is logged and the loop continues.\<close>

fun remove_files :: "faults \<Rightarrow> string list \<Rightarrow> 'r store \<Rightarrow> 'r store \<times> io_event list" where
  "remove_files flt [] st = (st, [])"
| "remove_files flt (file_name # rest) st =
     (if remove_raises flt file_name
      then (let (st', evs) = remove_files flt rest st
            in (st', RemoveObject file_name False # Log LWarning # evs))
      else (let (st', evs) = remove_files flt rest (AList.delete file_name st)
            in (st', RemoveObject file_name True # evs)))"

text \<open>
  Saving the merged frame and then deleting the processed files; a failing
  \<^verbatim>\<open>fput_object\<close> leaves the \<^verbatim>\<open>try\<close> block before the deletion loop.
\<close>

definition save_and_cleanup ::
  "faults \<Rightarrow> string \<Rightarrow> 'r list \<Rightarrow> string list \<Rightarrow> 'r store \<Rightarrow> 'r store \<times> io_event list \<times> outcome"
where
  "save_and_cleanup flt daily_file final_df processed_files st =
     (if put_raises flt daily_file then (st, [PutObject daily_file False], Raised S3Error)
      else (let (st', evs) =
                  remove_files flt processed_files
                    (AList.update daily_file (Parquet final_df) st)
            in (st', PutObject daily_file True # evs, Returned)))"

definition merge_previous_minute_data ::
  "('r \<Rightarrow> 'k::linorder) \<Rightarrow> faults \<Rightarrow> string \<Rightarrow> string \<Rightarrow> 'r store
     \<Rightarrow> 'r store \<times> io_event list \<times> outcome"
where
  "merge_previous_minute_data ts flt minute_str daily_file st =
     (if list_raises flt then (st, [Log LError], Returned)
      else
        let files = target_files minute_str st
        in if files = [] then (st, [], Returned)
           else
             let (dfs, processed_files, evs) = load_minute_files flt st files
             in if dfs = [] then (st, evs, Returned)
                else (case read_object flt st daily_file of
                        Frame existing_df \<Rightarrow>
                          (let (st', evs', out) =
                                 save_and_cleanup flt daily_file
                                   (merge_frames ts (Some existing_df) dfs) processed_files st
                           in (st', evs @ evs', out))
                      | NoSuchKey \<Rightarrow>
                          (let (st', evs', out) =
                                 save_and_cleanup flt daily_file
                                   (merge_frames ts None dfs) processed_files st
                           in (st', evs @ evs', out))
                      | S3Failure \<Rightarrow> (st, evs @ [Log LError], Returned)
                      | Unreadable \<Rightarrow> (st, evs, Raised ParquetError)))"

text \<open>The names that a cycle loads successfully with at least one row.\<close>

definition loadable :: "faults \<Rightarrow> 'r store \<Rightarrow> string \<Rightarrow> bool" where
  "loadable flt st name = (case read_object flt st name of Frame df \<Rightarrow> df \<noteq> [] | _ \<Rightarrow> False)"

text \<open>The names for which a trace asks for a deletion, and those whose deletion returned.\<close>

fun remove_requests :: "io_event list \<Rightarrow> string list" where
  "remove_requests [] = []"
| "remove_requests (RemoveObject name b # evs) = name # remove_requests evs"
| "remove_requests (e # evs) = remove_requests evs"

fun removed :: "io_event list \<Rightarrow> string list" where
  "removed [] = []"
| "removed (RemoveObject name b # evs) = (if b then name # removed evs else removed evs)"
| "removed (e # evs) = removed evs"

subsection \<open>The window fetcher\<close>

text \<open>
  A response of the search index: the request fails with a \<^verbatim>\<open>RequestException\<close>, or it
  returns the \<^verbatim>\<open>_source\<close> documents of its hits. \<open>initial attempt\<close> is the response to the
  scroll-opening request of that attempt; \<open>pages\<close> are the responses to the successive
  scroll requests, after which the cursor is exhausted (no hits).
\<close>

datatype response = RequestFailed | Hits "doc list"

datatype fetch_event = InitialRequest nat bool | ScrollRequest bool | Sleep nat | ClearScroll

text \<open>The projection written out in the fetcher: the kept fields, then \<^verbatim>\<open>@timestamp\<close>.\<close>

definition project :: "string list \<Rightarrow> doc \<Rightarrow> doc" where
  "project keep_fields source =
     (let filtered =
            fold (\<lambda>field acc. case map_of source field of
                                 Some v \<Rightarrow> AList.update field v acc
                               | None \<Rightarrow> acc)
                 keep_fields []
      in case map_of source ''@timestamp'' of
           Some v \<Rightarrow> AList.update ''@timestamp'' v filtered
         | None \<Rightarrow> filtered)"

text \<open>The \<^verbatim>\<open>while True\<close> loop over scroll pages: a failed request breaks out of it.\<close>

fun scroll_loop :: "string list \<Rightarrow> response list \<Rightarrow> doc list \<Rightarrow> doc list \<times> fetch_event list" where
  "scroll_loop keep_fields [] all_docs = (all_docs, [ScrollRequest True])"
| "scroll_loop keep_fields (RequestFailed # pages) all_docs = (all_docs, [ScrollRequest False])"
| "scroll_loop keep_fields (Hits scroll_hits # pages) all_docs =
     (if scroll_hits = [] then (all_docs, [ScrollRequest True])
      else (let (docs, evs) =
                  scroll_loop keep_fields pages (all_docs @ map (project keep_fields) scroll_hits)
            in (docs, ScrollRequest True # evs)))"

text \<open>The \<^verbatim>\<open>for attempt in range(max_retries)\<close> loop around the scroll-opening request.\<close>

fun attempt_loop ::
  "string list \<Rightarrow> (nat \<Rightarrow> response) \<Rightarrow> response list \<Rightarrow> nat \<Rightarrow> nat list \<Rightarrow> doc list
     \<Rightarrow> doc list \<times> fetch_event list"
where
  "attempt_loop keep_fields initial pages max_retries [] all_docs = (all_docs, [])"
| "attempt_loop keep_fields initial pages max_retries (attempt # rest) all_docs =
     (case initial attempt of
        Hits hits \<Rightarrow>
          if hits = [] then ([], [InitialRequest attempt True])
          else (let (docs, evs) =
                      scroll_loop keep_fields pages (all_docs @ map (project keep_fields) hits)
                in (docs, InitialRequest attempt True # evs @ [ClearScroll]))
      | RequestFailed \<Rightarrow>
          if int attempt = int max_retries - 1
          then (all_docs, [InitialRequest attempt False])
          else (let (docs, evs) =
                      attempt_loop keep_fields initial pages max_retries rest all_docs
                in (docs, InitialRequest attempt False # Sleep (min (2 ^ attempt) 10) # evs)))"

definition fetch_elasticsearch_data_paginated ::
  "string list \<Rightarrow> (nat \<Rightarrow> response) \<Rightarrow> response list \<Rightarrow> nat \<Rightarrow> doc list \<times> fetch_event list"
where
  "fetch_elasticsearch_data_paginated keep_fields initial pages max_retries =
     attempt_loop keep_fields initial pages max_retries [0..<max_retries] []"

definition fetch_elasticsearch_data ::
  "string list \<Rightarrow> (nat \<Rightarrow> response) \<Rightarrow> response list \<Rightarrow> doc list \<times> fetch_event list"
where
  "fetch_elasticsearch_data keep_fields initial pages =
     fetch_elasticsearch_data_paginated keep_fields initial pages 5"

text \<open>
  The events of the failed scroll-opening attempts \<open>a, \<dots>, b - 1\<close>, each followed by its
  backoff sleep of \<open>min (2 ^ attempt) 10\<close> seconds.
\<close>

definition retries :: "nat \<Rightarrow> nat \<Rightarrow> fetch_event list" where
  "retries a b =
     concat (map (\<lambda>attempt. [InitialRequest attempt False, Sleep (min (2 ^ attempt) 10)])
                 [a..<b])"

subsection \<open>The streaming checkpoint and the minute collector\<close>

text \<open>The checkpoint path of the pipeline: no file, unparseable bytes, or a JSON object.\<close>

datatype json_file = Absent | Unparseable | JsonObject doc

text \<open>
  \<^verbatim>\<open>_load_checkpoint\<close> catches every exception and falls back to one hour before now;
  \<^verbatim>\<open>_save_checkpoint\<close> catches every exception too.
\<close>

fun pipeline_load_checkpoint :: "json_file \<Rightarrow> string \<Rightarrow> doc" where
  "pipeline_load_checkpoint (JsonObject d) one_hour_ago = d"
| "pipeline_load_checkpoint f one_hour_ago = [(''last_timestamp'', JStr one_hour_ago)]"

definition pipeline_save_checkpoint :: "bool \<Rightarrow> doc \<Rightarrow> json_file \<Rightarrow> json_file" where
  "pipeline_save_checkpoint write_raises ck file = (if write_raises then file else JsonObject ck)"

text \<open>
  \<^verbatim>\<open>save_minute_data\<close>: nothing is written for an empty frame; otherwise the converted
  frame is put under the name of the minute. \<open>to_kst\<close> stands for
  \<^verbatim>\<open>process_dataframe_timestamps\<close>.
\<close>

definition save_minute_data ::
  "(doc list \<Rightarrow> doc list) \<Rightarrow> faults \<Rightarrow> string \<Rightarrow> doc list \<Rightarrow> doc store
     \<Rightarrow> py_exception + (doc store \<times> io_event list)"
where
  "save_minute_data to_kst flt object_name df st =
     (if df = [] then Inr (st, [])
      else if put_raises flt object_name then Inl S3Error
      else Inr (AList.update object_name (Parquet (to_kst df)) st, [PutObject object_name True]))"

record collector_state =
  bucket :: "doc store"
  checkpoint_file :: json_file

text \<open>
  \<^verbatim>\<open>collect_current_minute_data\<close> for one target minute. The clock enters through the
  strings derived from it: the artifact name of the minute, the end of the UTC window, the
  target minute and the fallback timestamp of \<^verbatim>\<open>_load_checkpoint\<close>. The search index
  enters through its responses to the requests of the fetch.
\<close>

definition collect_current_minute_data ::
  "(doc list \<Rightarrow> doc list) \<Rightarrow> string list \<Rightarrow> faults \<Rightarrow> bool \<Rightarrow> string \<Rightarrow> string \<Rightarrow> string
     \<Rightarrow> string \<Rightarrow> (nat \<Rightarrow> response) \<Rightarrow> response list \<Rightarrow> collector_state
     \<Rightarrow> collector_state \<times> io_event list \<times> outcome"
where
  "collect_current_minute_data to_kst keep_fields flt write_raises object_name utc_minute_end
       target_minute one_hour_ago initial pages s =
     (let docs = fst (fetch_elasticsearch_data keep_fields initial pages)
      in if docs \<noteq> [] then
           if \<exists>d \<in> set docs. ''@timestamp'' \<in> fst ` set d then
             (case save_minute_data to_kst flt object_name (to_kst docs) (bucket s) of
                Inl e \<Rightarrow> (s, [PutObject object_name False], Raised e)
              | Inr (st', evs) \<Rightarrow>
                  (let ck = pipeline_load_checkpoint (checkpoint_file s) one_hour_ago;
                       ck = AList.update ''last_timestamp'' (JStr utc_minute_end) ck;
                       ck = AList.update ''last_processed_minute'' (JStr target_minute) ck
                   in (\<lparr>bucket = st',
                         checkpoint_file =
                           pipeline_save_checkpoint write_raises ck (checkpoint_file s)\<rparr>,
                       evs, Returned)))
           else (s, [Log LWarning], Returned)
         else (s, [], Returned))"

section \<open>The batch backfill coordinator (streaming\_pipeline.py)\<close>

text \<open>
  \<^verbatim>\<open>process_and_save_week_data\<close>. \<open>has_ts\<close> says whether the frame has a
  \<^verbatim>\<open>@timestamp\<close> column, \<open>to_kst\<close> converts the timestamps and \<open>in_week\<close> is the filter on
  the converted timestamp. A failure to load the existing artifact is logged and the new
  rows are saved alone.
\<close>

definition process_and_save_week_data ::
  "('r \<Rightarrow> 'k::linorder) \<Rightarrow> ('r list \<Rightarrow> 'r list) \<Rightarrow> bool \<Rightarrow> ('r \<Rightarrow> bool) \<Rightarrow> faults
     \<Rightarrow> 'r list \<Rightarrow> string \<Rightarrow> nat \<Rightarrow> 'r store \<Rightarrow> 'r store \<times> io_event list \<times> bool"
where
  "process_and_save_week_data ts to_kst has_ts in_week flt all_docs object_name
       existing_record_count st =
     (if all_docs = [] then (st, [], False)
      else if has_ts \<and> filter in_week (to_kst all_docs) = [] then (st, [Log LWarning], False)
      else
        let new_df = (if has_ts then filter in_week (to_kst all_docs) else all_docs);
            evs = (if has_ts then [] else [Log LWarning]);
            (final_df, evs) =
              (if existing_record_count > 0
               then (case read_object flt st object_name of
                       Frame existing_df \<Rightarrow>
                         (sort_values ts (drop_duplicates (existing_df @ new_df)), evs)
                     | _ \<Rightarrow> (new_df, evs @ [Log LError]))
               else (new_df, evs))
        in if put_raises flt object_name
           then (st, evs @ [PutObject object_name False, Log LError], False)
           else (AList.update object_name (Parquet final_df) st,
                 evs @ [PutObject object_name True], True))"

text \<open>
  The attempt loop of a week. An attempt raises or returns documents; the documents of all
  attempts accumulate. \<^verbatim>\<open>len(all_docs) / expected_count >= 0.8\<close> is read in exact
  arithmetic.
\<close>

fun fetch_attempts ::
  "int \<Rightarrow> (py_exception + 'r list) list \<Rightarrow> 'r list \<Rightarrow> py_exception option
     \<Rightarrow> 'r list \<times> bool \<times> py_exception option"
where
  "fetch_attempts expected_count [] all_docs last_error = (all_docs, False, last_error)"
| "fetch_attempts expected_count (Inl e # rest) all_docs last_error =
     fetch_attempts expected_count rest all_docs (Some e)"
| "fetch_attempts expected_count (Inr docs # rest) all_docs last_error =
     (if docs \<noteq> [] then
        (let all_docs = all_docs @ docs
         in if expected_count > 0 then
              (if real (length all_docs) / real_of_int expected_count \<ge> 0.8
               then (all_docs, True, last_error)
               else fetch_attempts expected_count rest all_docs last_error)
            else
              (if length all_docs > 0 then (all_docs, True, last_error)
               else fetch_attempts expected_count rest all_docs last_error))
      else fetch_attempts expected_count rest all_docs last_error)"

definition max_attempts :: nat where
  "max_attempts = 3"

record failed_info =
  attempts :: nat
  last_error :: "py_exception option"
  failed_expected_count :: int

record partial_info =
  current_count :: nat
  partial_expected_count :: int

record batch_checkpoint =
  completed_weeks :: "nat set"
  failed_weeks :: "nat \<rightharpoonup> failed_info"
  partial_weeks :: "nat \<rightharpoonup> partial_info"

text \<open>What the coordinator records for a week in one run.\<close>

datatype week_state = Completed | Partial | Failed | NotRecorded

text \<open>
  The body of the \<^verbatim>\<open>while current_date < end_date\<close> loop for a week that is not yet
  completed: the look at the existing artifact, the attempts, the deduplication and the
  three-way result handling. \<open>fetch attempt\<close> is the outcome of that attempt's fetch and
  \<open>expected_count\<close> the result of the pre-flight count (0 when it failed).
\<close>

definition process_week ::
  "('r \<Rightarrow> 'k::linorder) \<Rightarrow> ('r list \<Rightarrow> 'r list) \<Rightarrow> bool \<Rightarrow> ('r \<Rightarrow> bool) \<Rightarrow> faults
     \<Rightarrow> (nat \<Rightarrow> py_exception + 'r list) \<Rightarrow> int \<Rightarrow> nat \<Rightarrow> string
     \<Rightarrow> batch_checkpoint \<Rightarrow> 'r store
     \<Rightarrow> batch_checkpoint \<times> 'r store \<times> io_event list \<times> week_state"
where
  "process_week ts to_kst has_ts in_week flt fetch expected_count week_num object_name ck st =
     (let (existing_record_count, evs0) =
            (case map_of st object_name of
               None \<Rightarrow> (0, [])
             | Some b \<Rightarrow>
                 (case read_object flt st object_name of
                    Frame existing_df \<Rightarrow> (length existing_df, [])
                  | _ \<Rightarrow> (0, [Log LWarning])));
          (all_docs, attempt_successful, err) =
            fetch_attempts expected_count (map fetch [0..<max_attempts]) [] None;
          all_docs = drop_duplicates all_docs
      in if \<not> attempt_successful \<and> length all_docs = 0 then
           (ck\<lparr>failed_weeks := (failed_weeks ck)(week_num \<mapsto>
                  \<lparr>attempts = max_attempts, last_error = err,
                   failed_expected_count = expected_count\<rparr>)\<rparr>,
            st, evs0 @ [Log LError, Log LWarning], Failed)
         else if \<not> attempt_successful \<and> length all_docs > 0 then
           (let (st', evs, saved) =
                  process_and_save_week_data ts to_kst has_ts in_week flt all_docs
                    object_name existing_record_count st
            in (ck\<lparr>partial_weeks := (partial_weeks ck)(week_num \<mapsto>
                     \<lparr>current_count = length all_docs + existing_record_count,
                      partial_expected_count = expected_count\<rparr>)\<rparr>,
                st', evs0 @ Log LWarning # evs, Partial))
         else
           (let ck = ck\<lparr>failed_weeks := (failed_weeks ck)(week_num := None),
                        partial_weeks := (partial_weeks ck)(week_num := None)\<rparr>;
                (st', evs, saved) =
                  process_and_save_week_data ts to_kst has_ts in_week flt all_docs
                    object_name existing_record_count st
            in if saved
               then (ck\<lparr>completed_weeks := insert week_num (completed_weeks ck)\<rparr>,
                     st', evs0 @ evs, Completed)
               else (ck, st', evs0 @ evs, NotRecorded)))"

text \<open>The success criterion of a week, on the number of documents fetched in total.\<close>

definition criterion_met :: "int \<Rightarrow> nat \<Rightarrow> bool" where
  "criterion_met expected_count fetched =
     (if expected_count > 0 then real fetched / real_of_int expected_count \<ge> 0.8
      else fetched > 0)"

section \<open>Example inputs\<close>

text \<open>
  Concrete documents, environments and states at which the properties below are
  evaluated. The field list keeps \<^verbatim>\<open>TEMPERATURE\<close> only, so the second document is
  empty after projection and schema application.
\<close>


definition ex_keep :: "string list" where "ex_keep = [''TEMPERATURE'']"
definition ex_doc1 :: doc where
  "ex_doc1 = [(''@timestamp'', JStr ''2025-06-01T00:00:01Z''), (''TEMPERATURE'', JNum 21)]"
definition ex_doc2 :: doc where
  "ex_doc2 = [(''@timestamp'', JStr ''2025-06-01T00:00:02Z''), (''objId'', JStr ''A'')]"
definition ex_default :: string where "ex_default = ''1970-01-01T00:00:00Z''"
definition ex_all_ok :: "nat \<Rightarrow> bool" where "ex_all_ok n = True"
definition ex_env :: tick_env where
  "ex_env = \<lparr>fetch_result = Some [ex_doc1, ex_doc2], send_ok = ex_all_ok, flush_ok = True\<rparr>"
definition ex_env_down :: tick_env where
  "ex_env_down = \<lparr>fetch_result = None, send_ok = ex_all_ok, flush_ok = True\<rparr>"
definition ex_state :: pub_state where
  "ex_state = \<lparr>checkpoint = Missing, last_timestamp = ex_default\<rparr>"

text \<open>Rows of a daily frame and of two minute frames, as pairs of timestamp and payload.\<close>

definition ex_rows_daily :: "(nat \<times> string) list" where
  "ex_rows_daily = [(2, ''b''), (1, ''a'')]"
definition ex_rows_minute :: "(nat \<times> string) list list" where
  "ex_rows_minute = [[(3, ''c''), (1, ''a'')], [(3, ''c'')]]"

text \<open>
  Fault records, and a bucket holding one minute artifact, without and with a corrupt
  daily artifact.
\<close>

definition never :: "string \<Rightarrow> bool" where "never name = False"
definition always :: "string \<Rightarrow> bool" where "always name = True"
definition ex_no_faults :: faults where
  "ex_no_faults = \<lparr>list_raises = False, get_raises = never, put_raises = never, remove_raises = never\<rparr>"
definition ex_put_fails :: faults where
  "ex_put_fails = \<lparr>list_raises = False, get_raises = never, put_raises = always, remove_raises = never\<rparr>"
definition ex_minute :: string where "ex_minute = ''20250601_0000''"
definition ex_minute_file :: string where "ex_minute_file = ''realtime/rt_20250601_0000_kst.parquet''"
definition ex_daily_file :: string where "ex_daily_file = ''/daily/daily_20250601_kst.parquet''"
definition ex_store :: "(nat \<times> string) store" where
  "ex_store = [(ex_minute_file, Parquet [(1, ''a'')])]"
definition ex_store_corrupt_daily :: "(nat \<times> string) store" where
  "ex_store_corrupt_daily = [(ex_minute_file, Parquet [(1, ''a'')]), (ex_daily_file, Corrupt)]"

text \<open>
  A week of the batch coordinator: every attempt fetches one row, the timestamp conversion
  is the identity and the week holds timestamps below 7.
\<close>

definition ex_to_kst :: "(nat \<times> string) list \<Rightarrow> (nat \<times> string) list" where
  "ex_to_kst df = df"
definition ex_in_week :: "nat \<times> string \<Rightarrow> bool" where
  "ex_in_week r = (fst r < 7)"
definition ex_week_file :: string where
  "ex_week_file = ''2025-06/week_01_20250601_20250607_kst.parquet''"
definition ex_store_corrupt_week :: "(nat \<times> string) store" where
  "ex_store_corrupt_week = [(ex_week_file, Corrupt)]"

text \<open>
  A search index that answers every scroll-opening request with one hit, one that fails
  every request, and a collector that starts with an empty bucket and no checkpoint file.
\<close>

definition ex_initial_ok :: "nat \<Rightarrow> response" where
  "ex_initial_ok attempt = Hits [ex_doc1]"
definition ex_initial_down :: "nat \<Rightarrow> response" where
  "ex_initial_down attempt = RequestFailed"
definition ex_doc_to_kst :: "doc list \<Rightarrow> doc list" where
  "ex_doc_to_kst df = df"
definition ex_collector_state :: collector_state where
  "ex_collector_state = \<lparr>bucket = [], checkpoint_file = Absent\<rparr>"


section \<open>Properties of the streaming publisher\<close>


lemma advance_ts_mono: "advance_ts v m = Inr m' \<Longrightarrow> m \<le> m'"
  by (cases v) (auto split: if_splits)

lemma publish_loop_mono:
  "publish_loop ok keep ds n m = (tr, Inr m') \<Longrightarrow> m \<le> m'"
proof (induction ds arbitrary: n m tr)
  case Nil
  then show ?case by simp
next
  case (Cons d ds)
  show ?case
  proof (cases "is_effectively_empty (unified_doc keep d)")
    case True
    with Cons show ?thesis by simp
  next
    case False
    with Cons.prems obtain m1 tr1 where
      a: "advance_ts (doc_get d ''@timestamp'') m = Inr m1" and
      r: "publish_loop ok keep ds (Suc n) m1 = (tr1, Inr m')"
      by (auto simp: Let_def split: if_splits sum.splits prod.splits)
    from advance_ts_mono [OF a] Cons.IH [OF r] show ?thesis by simp
  qed
qed


lemma survivors_Cons:
  "survivors keep (d # ds) =
     (if is_effectively_empty (unified_doc keep d) then survivors keep ds else d # survivors keep ds)"
  by (simp add: survivors_def)

lemma publish_loop_Cons_ok:
  assumes "publish_loop ok keep (d # ds) n m = (tr, Inr m')"
    and "\<not> is_effectively_empty (unified_doc keep d)"
  obtains m1 tr1 where "ok n"
    and "advance_ts (doc_get d ''@timestamp'') m = Inr m1"
    and "publish_loop ok keep ds (Suc n) m1 = (tr1, Inr m')"
    and "tr = Sent (unified_doc keep d) # tr1"
  using assms by (auto simp: Let_def split: if_splits sum.splits prod.splits)

lemma publish_loop_trace:
  "publish_loop ok keep ds n m = (tr, Inr m') \<Longrightarrow>
     tr = map (Sent \<circ> unified_doc keep) (survivors keep ds)"
proof (induction ds arbitrary: n m tr)
  case Nil
  then show ?case by (simp add: survivors_def)
next
  case (Cons d ds)
  show ?case
  proof (cases "is_effectively_empty (unified_doc keep d)")
    case True
    with Cons show ?thesis by (simp add: survivors_Cons)
  next
    case False
    from Cons.prems False obtain m1 tr1 where
      r: "publish_loop ok keep ds (Suc n) m1 = (tr1, Inr m')" and
      t: "tr = Sent (unified_doc keep d) # tr1"
      by (rule publish_loop_Cons_ok)
    from Cons.IH [OF r] t False show ?thesis by (simp add: survivors_Cons)
  qed
qed

lemma publish_loop_sends:
  "publish_loop ok keep ds n m = (tr, Inr m') \<Longrightarrow> i < length (survivors keep ds) \<Longrightarrow> ok (n + i)"
proof (induction ds arbitrary: n m tr i)
  case Nil
  then show ?case by (simp add: survivors_def)
next
  case (Cons d ds)
  show ?case
  proof (cases "is_effectively_empty (unified_doc keep d)")
    case True
    with Cons show ?thesis by (simp add: survivors_Cons)
  next
    case False
    from Cons.prems(1) False obtain m1 tr1 where
      o: "ok n" and
      r: "publish_loop ok keep ds (Suc n) m1 = (tr1, Inr m')"
      by (rule publish_loop_Cons_ok)
    show ?thesis
    proof (cases i)
      case 0
      with o show ?thesis by simp
    next
      case (Suc j)
      with Cons.prems(2) False have "j < length (survivors keep ds)"
        by (simp add: survivors_Cons)
      from Cons.IH [OF r this] Suc show ?thesis by simp
    qed
  qed
qed

lemma advance_ts_cases:
  assumes "advance_ts v m = Inr m1"
  shows "(m1 = m \<or> v = JStr m1) \<and> (\<forall>s. v = JStr s \<longrightarrow> s \<le> m1)"
  using assms by (cases v) (auto split: if_splits)

lemma ts_strings_Cons:
  "ts_strings (d # ds) =
     (case doc_get d ''@timestamp'' of JStr s \<Rightarrow> [s] | _ \<Rightarrow> []) @ ts_strings ds"
  by (simp split: jval.splits)

lemma publish_loop_upper:
  "publish_loop ok keep ds n m = (tr, Inr m') \<Longrightarrow>
     s \<in> set (ts_strings (survivors keep ds)) \<Longrightarrow> s \<le> m'"
proof (induction ds arbitrary: n m tr)
  case Nil
  then show ?case by (simp add: survivors_def)
next
  case (Cons d ds)
  show ?case
  proof (cases "is_effectively_empty (unified_doc keep d)")
    case True
    with Cons show ?thesis by (simp add: survivors_Cons)
  next
    case False
    from Cons.prems(1) False obtain m1 tr1 where
      a: "advance_ts (doc_get d ''@timestamp'') m = Inr m1" and
      r: "publish_loop ok keep ds (Suc n) m1 = (tr1, Inr m')"
      by (rule publish_loop_Cons_ok)
    from Cons.prems(2) False
    consider "doc_get d ''@timestamp'' = JStr s" | "s \<in> set (ts_strings (survivors keep ds))"
      by (auto simp: survivors_Cons split: jval.splits)
    then show ?thesis
    proof cases
      case 1
      with advance_ts_cases [OF a] have "s \<le> m1" by simp
      with publish_loop_mono [OF r] show ?thesis by simp
    next
      case 2
      from Cons.IH [OF r 2] show ?thesis .
    qed
  qed
qed

lemma publish_loop_attained:
  "publish_loop ok keep ds n m = (tr, Inr m') \<Longrightarrow>
     m' = m \<or> m' \<in> set (ts_strings (survivors keep ds))"
proof (induction ds arbitrary: n m tr)
  case Nil
  then show ?case by simp
next
  case (Cons d ds)
  show ?case
  proof (cases "is_effectively_empty (unified_doc keep d)")
    case True
    with Cons show ?thesis by (simp add: survivors_Cons)
  next
    case False
    from Cons.prems(1) False obtain m1 tr1 where
      a: "advance_ts (doc_get d ''@timestamp'') m = Inr m1" and
      r: "publish_loop ok keep ds (Suc n) m1 = (tr1, Inr m')"
      by (rule publish_loop_Cons_ok)
    from Cons.IH [OF r] advance_ts_cases [OF a] False show ?thesis
      by (auto simp: survivors_Cons split: jval.splits)
  qed
qed

lemma publish_loop_survivors:
  "publish_loop ok keep (survivors keep ds) n m = publish_loop ok keep ds n m"
proof (induction ds arbitrary: n m)
  case Nil
  then show ?case by (simp add: survivors_def)
next
  case (Cons d ds)
  then show ?case
    by (simp add: survivors_Cons Let_def split: sum.splits)
qed

lemma publish_loop_sent_nonempty:
  "publish_loop ok keep ds n m = (tr, r) \<Longrightarrow> Sent p \<in> set tr \<Longrightarrow> \<not> is_effectively_empty p"
proof (induction ds arbitrary: n m tr r)
  case Nil
  then show ?case by simp
next
  case (Cons d ds)
  then show ?case
    by (fastforce simp: Let_def split: if_splits sum.splits prod.splits)
qed

lemma publish_loop_no_saved:
  "publish_loop ok keep ds n m = (tr, r) \<Longrightarrow> Saved c \<notin> set tr"
proof (induction ds arbitrary: n m tr r)
  case Nil
  then show ?case by simp
next
  case (Cons d ds)
  then show ?case
    by (fastforce simp: Let_def split: if_splits sum.splits prod.splits)
qed


text \<open>The shapes a tick can take.\<close>

lemma tick_unfold:
  assumes "tick keep env st = (st', tr, res)"
  shows "(st' = st \<and> (\<forall>c. Saved c \<notin> set tr)) \<or>
         (\<exists>ds tr0 lm. fetch_result env = Some ds \<and> ds \<noteq> [] \<and> flush_ok env \<and>
            publish_loop (send_ok env) keep ds 0 (last_timestamp st) = (tr0, Inr lm) \<and>
            lm \<noteq> last_timestamp st \<and> res = TickOk \<and>
            st' = \<lparr>checkpoint = save_checkpoint lm, last_timestamp = lm\<rparr> \<and>
            tr = tr0 @ [Flushed, Saved lm])"
proof (cases "fetch_result env")
  case None
  with assms show ?thesis by (simp add: tick_def)
next
  case (Some ds)
  show ?thesis
  proof (cases "ds = []")
    case True
    with Some assms show ?thesis by (simp add: tick_def)
  next
    case False
    obtain tr0 r where p: "publish_loop (send_ok env) keep ds 0 (last_timestamp st) = (tr0, r)"
      by (cases "publish_loop (send_ok env) keep ds 0 (last_timestamp st)")
    from publish_loop_no_saved [OF p] have ns: "\<forall>c. Saved c \<notin> set tr0" by simp
    show ?thesis
    proof (cases r)
      case (Inl e)
      with Some False p assms ns show ?thesis by (auto simp: tick_def)
    next
      case (Inr lm)
      with Some False p assms ns show ?thesis
        by (auto simp: tick_def split: if_splits)
    qed
  qed
qed

lemma tick_raised_unchanged:
  assumes "tick keep env st = (st', tr, TickRaised e)"
  shows "st' = st \<and> (\<forall>c. Saved c \<notin> set tr)"
  using tick_unfold [OF assms] by auto

lemma tick_fetch_raises:
  "fetch_result env = None \<Longrightarrow> tick keep env st = (st, [], TickRaised RequestException)"
  by (simp add: tick_def)

lemma tick_flush_raises:
  assumes "fetch_result env = Some ds" "ds \<noteq> []" "\<not> flush_ok env"
  shows "\<exists>tr e. tick keep env st = (st, tr, TickRaised e)"
proof -
  obtain tr0 r where p: "publish_loop (send_ok env) keep ds 0 (last_timestamp st) = (tr0, r)"
    by (cases "publish_loop (send_ok env) keep ds 0 (last_timestamp st)")
  with assms show ?thesis by (cases r) (auto simp: tick_def)
qed

lemma tick_send_raises:
  assumes "fetch_result env = Some ds" "i < length (survivors keep ds)" "\<not> send_ok env i"
  shows "\<exists>tr e. tick keep env st = (st, tr, TickRaised e)"
proof -
  from assms(2) have ne: "ds \<noteq> []" by (auto simp: survivors_def)
  obtain tr0 r where p: "publish_loop (send_ok env) keep ds 0 (last_timestamp st) = (tr0, r)"
    by (cases "publish_loop (send_ok env) keep ds 0 (last_timestamp st)")
  show ?thesis
  proof (cases r)
    case (Inl e)
    with assms ne p show ?thesis by (auto simp: tick_def)
  next
    case (Inr lm)
    with p publish_loop_sends [of "send_ok env" keep ds 0 "last_timestamp st" tr0 lm i] assms
    show ?thesis by simp
  qed
qed

lemma tick_saved:
  assumes t: "tick keep env st = (st', tr, res)"
    and ch: "checkpoint st' \<noteq> checkpoint st \<or> (\<exists>c. Saved c \<in> set tr)"
  shows "\<exists>ds. fetch_result env = Some ds \<and> flush_ok env \<and>
           (\<forall>i<length (survivors keep ds). send_ok env i) \<and>
           ts_strings (survivors keep ds) \<noteq> [] \<and>
           tr = map (Sent \<circ> unified_doc keep) (survivors keep ds) @
                  [Flushed, Saved (Max (set (ts_strings (survivors keep ds))))] \<and>
           checkpoint st' = save_checkpoint (Max (set (ts_strings (survivors keep ds)))) \<and>
           last_timestamp st' = Max (set (ts_strings (survivors keep ds))) \<and>
           last_timestamp st < last_timestamp st'"
proof -
  from tick_unfold [OF t] ch obtain ds tr0 lm where
    f: "fetch_result env = Some ds" and fl: "flush_ok env" and
    p: "publish_loop (send_ok env) keep ds 0 (last_timestamp st) = (tr0, Inr lm)" and
    ne: "lm \<noteq> last_timestamp st" and
    s: "st' = \<lparr>checkpoint = save_checkpoint lm, last_timestamp = lm\<rparr>" and
    tr: "tr = tr0 @ [Flushed, Saved lm]"
    by auto
  let ?T = "set (ts_strings (survivors keep ds))"
  from publish_loop_attained [OF p] ne have mem: "lm \<in> ?T" by simp
  have "Max ?T = lm"
  proof (rule Max_eqI)
    show "finite ?T" by simp
    show "\<And>y. y \<in> ?T \<Longrightarrow> y \<le> lm" using publish_loop_upper [OF p] .
    show "lm \<in> ?T" by (rule mem)
  qed
  moreover from mem have "ts_strings (survivors keep ds) \<noteq> []" by auto
  moreover from publish_loop_sends [OF p]
  have "\<forall>i<length (survivors keep ds). send_ok env i" by simp
  moreover from publish_loop_mono [OF p] ne have "last_timestamp st < lm" by simp
  ultimately show ?thesis
    using f fl s tr publish_loop_trace [OF p] by simp
qed

lemma tick_cursor_mono:
  "last_timestamp st \<le> last_timestamp (fst (tick keep env st))"
proof -
  obtain st' tr res where t: "tick keep env st = (st', tr, res)"
    by (cases "tick keep env st")
  from tick_unfold [OF t] show ?thesis
  proof
    assume "st' = st \<and> (\<forall>c. Saved c \<notin> set tr)"
    with t show ?thesis by simp
  next
    assume "\<exists>ds tr0 lm. fetch_result env = Some ds \<and> ds \<noteq> [] \<and> flush_ok env \<and>
            publish_loop (send_ok env) keep ds 0 (last_timestamp st) = (tr0, Inr lm) \<and>
            lm \<noteq> last_timestamp st \<and> res = TickOk \<and>
            st' = \<lparr>checkpoint = save_checkpoint lm, last_timestamp = lm\<rparr> \<and>
            tr = tr0 @ [Flushed, Saved lm]"
    then obtain ds tr0 lm where
      p: "publish_loop (send_ok env) keep ds 0 (last_timestamp st) = (tr0, Inr lm)" and
      s: "st' = \<lparr>checkpoint = save_checkpoint lm, last_timestamp = lm\<rparr>"
      by auto
    from publish_loop_mono [OF p] s t show ?thesis by simp
  qed
qed

lemma tick_file_agrees:
  assumes "load_checkpoint (checkpoint st) dflt = Inr (last_timestamp st)"
  shows "load_checkpoint (checkpoint (fst (tick keep env st))) dflt =
           Inr (last_timestamp (fst (tick keep env st)))"
proof -
  obtain st' tr res where t: "tick keep env st = (st', tr, res)"
    by (cases "tick keep env st")
  from tick_unfold [OF t] assms t show ?thesis
    by (auto simp: save_checkpoint_def)
qed

lemma run_ticks_mono:
  "last_timestamp st \<le> last_timestamp (run_ticks keep envs st)"
proof (induction envs arbitrary: st)
  case Nil
  show ?case by (simp add: run_ticks_def)
next
  case (Cons env envs)
  have "last_timestamp st \<le> last_timestamp (fst (tick keep env st))"
    by (rule tick_cursor_mono)
  also have "\<dots> \<le> last_timestamp (run_ticks keep envs (fst (tick keep env st)))"
    by (rule Cons.IH)
  finally show ?case by (simp add: run_ticks_def)
qed

lemma run_ticks_file_agrees:
  "load_checkpoint (checkpoint st) dflt = Inr (last_timestamp st) \<Longrightarrow>
   load_checkpoint (checkpoint (run_ticks keep envs st)) dflt =
     Inr (last_timestamp (run_ticks keep envs st))"
proof (induction envs arbitrary: st)
  case Nil
  then show ?case by (simp add: run_ticks_def)
next
  case (Cons env envs)
  from Cons.IH [OF tick_file_agrees [OF Cons.prems]] show ?case
    by (simp add: run_ticks_def)
qed

lemma run_ticks_append:
  "run_ticks keep (envs1 @ envs2) st = run_ticks keep envs2 (run_ticks keep envs1 st)"
  by (simp add: run_ticks_def)

text \<open>
  Claim C1. Over every sequence of ticks the checkpoint's \<^verbatim>\<open>last_timestamp\<close>, as
  \<^const>\<open>load_checkpoint\<close> reads it back, agrees with the cursor in memory and never
  decreases. Within a tick the checkpoint file is rewritten only when the fetch returned,
  every send returned and the flush returned; the rewrite is the last action of the tick,
  after the sends of all surviving records and the flush, and it stores the maximum
  \<^verbatim>\<open>@timestamp\<close> among the surviving records of the tick. When the fetch, a send or the
  flush raises, the state and the file are unchanged and nothing is saved.
\<close>

theorem checkpoint_monotone_after_flush:
  "(load_checkpoint (checkpoint st) dflt = Inr (last_timestamp st) \<longrightarrow>
      load_checkpoint (checkpoint (run_ticks keep envs1 st)) dflt =
        Inr (last_timestamp (run_ticks keep envs1 st)) \<and>
      load_checkpoint (checkpoint (run_ticks keep (envs1 @ envs2) st)) dflt =
        Inr (last_timestamp (run_ticks keep (envs1 @ envs2) st)) \<and>
      last_timestamp (run_ticks keep envs1 st)
        \<le> last_timestamp (run_ticks keep (envs1 @ envs2) st)) \<and>
   (tick keep env s = (s', tr, res) \<longrightarrow>
      (checkpoint s' \<noteq> checkpoint s \<or> (\<exists>c. Saved c \<in> set tr) \<longrightarrow>
         (\<exists>ds. fetch_result env = Some ds \<and> flush_ok env \<and>
            (\<forall>i<length (survivors keep ds). send_ok env i) \<and>
            ts_strings (survivors keep ds) \<noteq> [] \<and>
            tr = map (Sent \<circ> unified_doc keep) (survivors keep ds) @
                   [Flushed, Saved (Max (set (ts_strings (survivors keep ds))))] \<and>
            checkpoint s' = save_checkpoint (Max (set (ts_strings (survivors keep ds)))))) \<and>
      ((\<exists>e. res = TickRaised e) \<longrightarrow> s' = s \<and> (\<forall>c. Saved c \<notin> set tr)) \<and>
      (fetch_result env = None \<or>
       (\<exists>ds. fetch_result env = Some ds \<and>
          ((\<exists>i<length (survivors keep ds). \<not> send_ok env i) \<or> ds \<noteq> [] \<and> \<not> flush_ok env))
       \<longrightarrow> (\<exists>e. res = TickRaised e)))"
proof -
  have seq: "load_checkpoint (checkpoint (run_ticks keep envs1 st)) dflt =
        Inr (last_timestamp (run_ticks keep envs1 st)) \<and>
      load_checkpoint (checkpoint (run_ticks keep (envs1 @ envs2) st)) dflt =
        Inr (last_timestamp (run_ticks keep (envs1 @ envs2) st)) \<and>
      last_timestamp (run_ticks keep envs1 st)
        \<le> last_timestamp (run_ticks keep (envs1 @ envs2) st)"
    if "load_checkpoint (checkpoint st) dflt = Inr (last_timestamp st)"
    using run_ticks_file_agrees [OF that, of keep envs1]
      run_ticks_file_agrees [OF that, of keep "envs1 @ envs2"]
      run_ticks_mono [of "run_ticks keep envs1 st" keep envs2]
    by (simp only: run_ticks_append simp_thms)
  have raised: "\<exists>e. res = TickRaised e"
    if t: "tick keep env s = (s', tr, res)"
      and c: "fetch_result env = None \<or>
       (\<exists>ds. fetch_result env = Some ds \<and>
          ((\<exists>i<length (survivors keep ds). \<not> send_ok env i) \<or> ds \<noteq> [] \<and> \<not> flush_ok env))"
    using c t tick_fetch_raises [of env keep s] tick_send_raises [of env _ _ keep s]
      tick_flush_raises [of env _ keep s]
    by (elim disjE exE conjE) fastforce+
  show ?thesis
    using seq tick_saved [of keep env s s' tr res] tick_raised_unchanged [of keep env s s' tr]
      raised
    by blast
qed

lemmas ex_defs = ex_keep_def ex_doc1_def ex_doc2_def ex_default_def ex_all_ok_def ex_env_def
  ex_env_down_def ex_state_def
lemmas pub_defs = tick_def unified_doc_def apply_base_schema_def filter_fields_def
  base_schema_def is_effectively_empty_def doc_get_def save_checkpoint_def survivors_def
  run_ticks_def

lemma ex_tick:
  "tick ex_keep ex_env ex_state =
     (\<lparr>checkpoint = CkptObject (Some ''2025-06-01T00:00:01Z''),
       last_timestamp = ''2025-06-01T00:00:01Z''\<rparr>,
      [Sent (unified_doc ex_keep ex_doc1), Flushed, Saved ''2025-06-01T00:00:01Z''], TickOk)"
  by (simp add: ex_defs pub_defs)

lemma ex_tick_down:
  "tick ex_keep ex_env_down ex_state = (ex_state, [], TickRaised RequestException)"
  by (simp add: ex_defs pub_defs)

theorem checkpoint_monotone_after_flush_witness:
  "load_checkpoint (checkpoint ex_state) ex_default = Inr (last_timestamp ex_state) \<and>
   last_timestamp (run_ticks ex_keep [] ex_state)
     \<le> last_timestamp (run_ticks ex_keep ([] @ [ex_env]) ex_state) \<and>
   tick ex_keep ex_env ex_state =
     (\<lparr>checkpoint = CkptObject (Some ''2025-06-01T00:00:01Z''),
       last_timestamp = ''2025-06-01T00:00:01Z''\<rparr>,
      [Sent (unified_doc ex_keep ex_doc1), Flushed, Saved ''2025-06-01T00:00:01Z''], TickOk) \<and>
   (\<exists>ds. fetch_result ex_env = Some ds \<and> flush_ok ex_env \<and>
      Max (set (ts_strings (survivors ex_keep ds))) = ''2025-06-01T00:00:01Z'') \<and>
   fetch_result ex_env_down = None \<and>
   tick ex_keep ex_env_down ex_state = (ex_state, [], TickRaised RequestException)"
proof -
  have h1: "load_checkpoint (checkpoint ex_state) ex_default = Inr (last_timestamp ex_state)"
    by (simp add: ex_defs)
  have h2: "checkpoint \<lparr>checkpoint = CkptObject (Some ''2025-06-01T00:00:01Z''),
       last_timestamp = ''2025-06-01T00:00:01Z''\<rparr> \<noteq> checkpoint ex_state"
    by (simp add: ex_defs)
  have h3: "fetch_result ex_env_down = None" by (simp add: ex_defs)
  note t = checkpoint_monotone_after_flush [where st = ex_state and dflt = ex_default
      and keep = ex_keep and ?envs1.0 = "[]" and ?envs2.0 = "[ex_env]" and env = ex_env
      and s = ex_state and res = TickOk]
  note a = t [THEN conjunct1, rule_format, OF h1]
  note b = t [THEN conjunct2, rule_format, OF ex_tick]
  from b h2 obtain ds where d: "fetch_result ex_env = Some ds" "flush_ok ex_env"
    "checkpoint \<lparr>checkpoint = CkptObject (Some ''2025-06-01T00:00:01Z''),
       last_timestamp = ''2025-06-01T00:00:01Z''\<rparr>
      = save_checkpoint (Max (set (ts_strings (survivors ex_keep ds))))"
    by blast
  from d(3) have "Max (set (ts_strings (survivors ex_keep ds))) = ''2025-06-01T00:00:01Z''"
    by (simp add: save_checkpoint_def)
  with a h1 ex_tick ex_tick_down h3 d show ?thesis by blast
qed

lemma fst_tick:
  "fetch_result env = Some ds \<Longrightarrow>
   fst (tick keep env st) =
     (case publish_loop (send_ok env) keep ds 0 (last_timestamp st) of
        (tr, Inl e) \<Rightarrow> st
      | (tr, Inr lm) \<Rightarrow>
          if flush_ok env \<and> lm \<noteq> last_timestamp st
          then \<lparr>checkpoint = save_checkpoint lm, last_timestamp = lm\<rparr> else st)"
  by (cases ds) (auto simp: tick_def split: prod.splits sum.splits)

lemma survivors_drop_empty:
  "is_effectively_empty (unified_doc keep e) \<Longrightarrow>
   survivors keep (xs @ e # ys) = survivors keep (xs @ ys)"
  by (simp add: survivors_def)

lemma publish_loop_drop_empty:
  assumes "is_effectively_empty (unified_doc keep e)"
  shows "publish_loop ok keep (xs @ e # ys) n m = publish_loop ok keep (xs @ ys) n m"
proof -
  have "publish_loop ok keep (xs @ e # ys) n m
          = publish_loop ok keep (survivors keep (xs @ e # ys)) n m"
    by (simp only: publish_loop_survivors)
  also have "\<dots> = publish_loop ok keep (survivors keep (xs @ ys)) n m"
    by (simp only: survivors_drop_empty [OF assms])
  also have "\<dots> = publish_loop ok keep (xs @ ys) n m"
    by (simp only: publish_loop_survivors)
  finally show ?thesis .
qed

lemma tick_sent_nonempty:
  assumes "tick keep env st = (st', tr, res)" "Sent p \<in> set tr"
  shows "\<not> is_effectively_empty p"
proof (cases "fetch_result env")
  case None
  with assms show ?thesis by (simp add: tick_def)
next
  case (Some ds)
  obtain tr0 r where p: "publish_loop (send_ok env) keep ds 0 (last_timestamp st) = (tr0, r)"
    by (cases "publish_loop (send_ok env) keep ds 0 (last_timestamp st)")
  from assms Some p have "Sent p \<in> set tr0"
    by (cases r) (auto simp: tick_def split: if_splits)
  with publish_loop_sent_nonempty [OF p] show ?thesis by simp
qed

text \<open>
  Claim C5. A record whose projection under the canonical schema has every field other
  than \<^verbatim>\<open>@timestamp\<close> null is never handed to the producer, and it does not contribute
  to the checkpoint: removing such a record from the fetched batch, or all of them, leaves
  the resulting cursor and checkpoint file the same.
\<close>

theorem empty_records_suppressed:
  "(tick keep env st = (st', tr, res) \<longrightarrow>
      (\<forall>p. Sent p \<in> set tr \<longrightarrow> \<not> is_effectively_empty p)) \<and>
   (is_effectively_empty (unified_doc keep e) \<longrightarrow>
      fst (tick keep (env\<lparr>fetch_result := Some (xs @ e # ys)\<rparr>) st) =
      fst (tick keep (env\<lparr>fetch_result := Some (xs @ ys)\<rparr>) st)) \<and>
   fst (tick keep (env\<lparr>fetch_result := Some ds\<rparr>) st) =
     fst (tick keep (env\<lparr>fetch_result := Some (survivors keep ds)\<rparr>) st)"
  using tick_sent_nonempty [of keep env st st' tr res]
  by (auto simp: fst_tick publish_loop_drop_empty publish_loop_survivors)

theorem empty_records_suppressed_witness:
  "tick ex_keep ex_env ex_state =
     (\<lparr>checkpoint = CkptObject (Some ''2025-06-01T00:00:01Z''),
       last_timestamp = ''2025-06-01T00:00:01Z''\<rparr>,
      [Sent (unified_doc ex_keep ex_doc1), Flushed, Saved ''2025-06-01T00:00:01Z''], TickOk) \<and>
   \<not> is_effectively_empty (unified_doc ex_keep ex_doc1) \<and>
   is_effectively_empty (unified_doc ex_keep ex_doc2) \<and>
   fst (tick ex_keep (ex_env\<lparr>fetch_result := Some ([ex_doc1] @ ex_doc2 # [])\<rparr>) ex_state) =
   fst (tick ex_keep (ex_env\<lparr>fetch_result := Some ([ex_doc1] @ [])\<rparr>) ex_state)"
proof -
  have h: "is_effectively_empty (unified_doc ex_keep ex_doc2)"
    by (simp add: ex_defs pub_defs)
  note t = empty_records_suppressed [where keep = ex_keep and env = ex_env and st = ex_state
      and res = TickOk and e = ex_doc2 and xs = "[ex_doc1]" and ys = "[]" and ds = "[]"]
  from t [THEN conjunct1, rule_format, OF ex_tick]
  have "\<not> is_effectively_empty (unified_doc ex_keep ex_doc1)" by simp
  moreover from t [THEN conjunct2, THEN conjunct1, rule_format, OF h]
  have "fst (tick ex_keep (ex_env\<lparr>fetch_result := Some ([ex_doc1] @ ex_doc2 # [])\<rparr>) ex_state) =
   fst (tick ex_keep (ex_env\<lparr>fetch_result := Some ([ex_doc1] @ [])\<rparr>) ex_state)" .
  ultimately show ?thesis using ex_tick h by simp
qed

text \<open>
  Claim C6. A checkpoint file that cannot be parsed: \<^verbatim>\<open>load_checkpoint\<close> of the
  streaming publisher raises instead of returning the default timestamp, whereas
  \<^verbatim>\<open>_load_checkpoint\<close> of the pipeline returns its fallback for an unparseable and for
  an absent file.
\<close>

theorem unparseable_checkpoint_raises:
  "load_checkpoint Malformed default_ts = Inl JSONDecodeError \<and>
   pipeline_load_checkpoint Unparseable one_hour_ago = [(''last_timestamp'', JStr one_hour_ago)] \<and>
   pipeline_load_checkpoint Absent one_hour_ago = [(''last_timestamp'', JStr one_hour_ago)]"
  by simp

section \<open>Properties of the merge\<close>


lemma set_dedup_seen: "set (dedup_seen seen xs) = set xs - set seen"
  by (induction xs arbitrary: seen) auto

lemma distinct_dedup_seen: "distinct (dedup_seen seen xs)"
  by (induction xs arbitrary: seen) (auto simp: set_dedup_seen)

lemma dedup_seen_cong: "set seen = set seen' \<Longrightarrow> dedup_seen seen xs = dedup_seen seen' xs"
proof (induction xs arbitrary: seen seen')
  case Nil
  show ?case by simp
next
  case (Cons x xs)
  from Cons.prems have "set (x # seen) = set (x # seen')" by simp
  from Cons.IH [OF this] Cons.IH [OF Cons.prems] Cons.prems show ?case by simp
qed

lemma dedup_seen_append:
  "dedup_seen seen (xs @ ys) = dedup_seen seen xs @ dedup_seen (xs @ seen) ys"
proof (induction xs arbitrary: seen)
  case Nil
  show ?case by simp
next
  case (Cons x xs)
  show ?case
  proof (cases "x \<in> set seen")
    case True
    then have "set (xs @ seen) = set ((x # xs) @ seen)" by auto
    from dedup_seen_cong [OF this] True Cons.IH [of seen] show ?thesis by simp
  next
    case False
    have "set (xs @ x # seen) = set ((x # xs) @ seen)" by auto
    from dedup_seen_cong [OF this] False Cons.IH [of "x # seen"] show ?thesis by simp
  qed
qed

lemma dedup_seen_id: "distinct xs \<Longrightarrow> set xs \<inter> set seen = {} \<Longrightarrow> dedup_seen seen xs = xs"
  by (induction xs arbitrary: seen) auto

lemma dedup_seen_all_seen: "set ys \<subseteq> set seen \<Longrightarrow> dedup_seen seen ys = []"
  by (induction ys arbitrary: seen) auto

lemma set_drop_duplicates: "set (drop_duplicates xs) = set xs"
  by (simp add: drop_duplicates_def set_dedup_seen)

lemma distinct_drop_duplicates: "distinct (drop_duplicates xs)"
  by (simp add: drop_duplicates_def distinct_dedup_seen)

lemma drop_duplicates_absorb:
  assumes "distinct xs" "set ys \<subseteq> set xs"
  shows "drop_duplicates (xs @ ys) = xs"
proof -
  from assms(2) have "dedup_seen (xs @ []) ys = []" by (intro dedup_seen_all_seen) simp
  with assms(1) show ?thesis
    by (simp add: drop_duplicates_def dedup_seen_append dedup_seen_id)
qed

text \<open>Facts about a merge under any sorting routine that permutes its input.\<close>

lemma merge_frames_with_props:
  assumes perm: "\<And>xs. mset (srt xs) = mset xs"
  shows "distinct (merge_frames_with srt D M)"
    and "set (concat M) \<subseteq> set (merge_frames_with srt D M)"
proof -
  have s: "set (srt xs) = set xs" for xs
    using perm [of xs] by (metis set_mset_mset)
  have d: "distinct (srt xs) = distinct xs" for xs
    using perm [of xs] by (metis mset_eq_imp_distinct_iff)
  show "distinct (merge_frames_with srt D M)"
    by (cases D) (simp_all add: merge_frames_with_def Let_def d distinct_drop_duplicates)
  show "set (concat M) \<subseteq> set (merge_frames_with srt D M)"
    by (cases D) (auto simp: merge_frames_with_def Let_def s set_drop_duplicates)
qed

lemma merge_frames_with_again:
  assumes perm: "\<And>xs. mset (srt xs) = mset xs"
  shows "merge_frames_with srt (Some (merge_frames_with srt D M)) M
           = srt (merge_frames_with srt D M)"
proof -
  let ?R = "merge_frames_with srt D M"
  have s: "set (srt xs) = set xs" for xs
    using perm [of xs] by (metis set_mset_mset)
  have "set (srt (drop_duplicates (concat M))) \<subseteq> set ?R"
    using merge_frames_with_props(2) [OF perm, of M D] by (simp add: s set_drop_duplicates)
  with merge_frames_with_props(1) [OF perm, of D M]
  have "drop_duplicates (?R @ srt (drop_duplicates (concat M))) = ?R"
    by (rule drop_duplicates_absorb)
  then show ?thesis by (simp add: merge_frames_with_def Let_def)
qed

lemma sorted_merge_frames: "sorted (map ts (merge_frames ts D M))"
  by (cases D) (simp_all add: merge_frames_def merge_frames_with_def sort_values_def Let_def)

lemma mset_sort_values: "mset (sort_values ts xs) = mset xs"
  by (simp add: sort_values_def)

text \<open>
  Claim C2. Merging the same minute frames into the daily frame a second time changes
  nothing: with the merge as the cycle computes it (concatenate, drop exact duplicate rows
  keeping the first, sort ascending by \<^verbatim>\<open>@timestamp\<close>), the second result equals the
  first as a list. For any sorting routine that only permutes its input, stable or not,
  the two results hold the same rows, each once.
\<close>

theorem merge_idempotent:
  "merge_frames ts (Some (merge_frames ts D M)) M = merge_frames ts D M \<and>
   ((\<forall>xs. mset (srt xs) = mset xs) \<longrightarrow>
      mset (merge_frames_with srt (Some (merge_frames_with srt D' M')) M')
        = mset (merge_frames_with srt D' M') \<and>
      distinct (merge_frames_with srt D' M'))"
proof (intro conjI impI)
  have "merge_frames ts (Some (merge_frames ts D M)) M = sort_values ts (merge_frames ts D M)"
    unfolding merge_frames_def by (rule merge_frames_with_again) (rule mset_sort_values)
  also have "\<dots> = merge_frames ts D M"
    unfolding sort_values_def by (rule sort_key_id_if_sorted) (rule sorted_merge_frames)
  finally show "merge_frames ts (Some (merge_frames ts D M)) M = merge_frames ts D M" .
next
  assume a: "\<forall>xs. mset (srt xs) = mset xs"
  then have perm: "\<And>xs. mset (srt xs) = mset xs" by simp
  from merge_frames_with_again [OF perm, of D' M'] a
  show "mset (merge_frames_with srt (Some (merge_frames_with srt D' M')) M')
        = mset (merge_frames_with srt D' M')" by simp
  from merge_frames_with_props(1) [OF perm] show "distinct (merge_frames_with srt D' M')" .
qed

theorem merge_idempotent_witness:
  "(\<forall>xs::(nat \<times> string) list. mset (sort_key fst xs) = mset xs) \<and>
   merge_frames_with (sort_key fst) (Some ex_rows_daily) ex_rows_minute
     = [(1, ''a''), (2, ''b''), (3, ''c'')] \<and>
   mset (merge_frames_with (sort_key fst)
          (Some (merge_frames_with (sort_key fst) (Some ex_rows_daily) ex_rows_minute))
          ex_rows_minute)
     = mset [(1, ''a''), (2, ''b''), (3, ''c'')]"
proof -
  have h: "\<forall>xs::(nat \<times> string) list. mset (sort_key fst xs) = mset xs" by simp
  have e: "merge_frames_with (sort_key fst) (Some ex_rows_daily) ex_rows_minute
             = [(1, ''a''), (2, ''b''), (3, ''c'')]"
    by (simp add: merge_frames_with_def drop_duplicates_def ex_rows_daily_def ex_rows_minute_def)
  from merge_idempotent [where srt = "sort_key fst" and D' = "Some ex_rows_daily"
      and M' = ex_rows_minute, THEN conjunct2, THEN mp, OF h, THEN conjunct1] h e
  show ?thesis by simp
qed

section \<open>Properties of the merge cycle\<close>

lemmas store_ex_defs = never_def always_def ex_no_faults_def ex_put_fails_def ex_minute_def
  ex_minute_file_def ex_daily_file_def ex_store_def ex_store_corrupt_daily_def


lemma ex_target_files: "target_files ex_minute ex_store = [ex_minute_file]"
  by code_simp

lemma ex_target_files_corrupt: "target_files ex_minute ex_store_corrupt_daily = [ex_minute_file]"
  by code_simp

lemma ex_merge_ok:
  "merge_previous_minute_data fst ex_no_faults ex_minute ex_daily_file ex_store =
     ([(ex_daily_file, Parquet [(1, ''a'')])],
      [PutObject ex_daily_file True, RemoveObject ex_minute_file True], Returned)"
  by code_simp

lemma ex_merge_put_fails:
  "merge_previous_minute_data fst ex_put_fails ex_minute ex_daily_file ex_store =
     (ex_store, [PutObject ex_daily_file False], Raised S3Error)"
  by code_simp

lemma ex_merge_corrupt:
  "merge_previous_minute_data fst ex_no_faults ex_minute ex_daily_file ex_store_corrupt_daily =
     (ex_store_corrupt_daily, [], Raised ParquetError)"
  by code_simp

lemma ex_loadable: "filter (loadable ex_put_fails ex_store) (target_files ex_minute ex_store) = [ex_minute_file]"
  by code_simp

lemma load_minute_files_processed:
  "load_minute_files flt st files = (dfs, processed, evs) \<Longrightarrow>
     processed = filter (loadable flt st) files \<and> (dfs = [] \<longleftrightarrow> processed = []) \<and>
     (\<forall>e \<in> set evs. e = Log LError)"
proof (induction files arbitrary: dfs processed evs)
  case Nil
  then show ?case by simp
next
  case (Cons f files)
  obtain dfs0 p0 evs0 where r: "load_minute_files flt st files = (dfs0, p0, evs0)"
    by (cases "load_minute_files flt st files")
  from Cons.IH [OF r] Cons.prems r show ?case
    by (cases "read_object flt st f") (auto simp: loadable_def split: if_splits)
qed

lemma remove_files_events:
  "remove_files flt files st = (st', evs) \<Longrightarrow>
     remove_requests evs = files \<and>
     removed evs = filter (\<lambda>f. \<not> remove_raises flt f) files \<and>
     (\<forall>name b. PutObject name b \<notin> set evs)"
proof (induction files arbitrary: st st' evs)
  case Nil
  then show ?case by simp
next
  case (Cons f files)
  show ?case
  proof (cases "remove_raises flt f")
    case True
    obtain st0 evs0 where r: "remove_files flt files st = (st0, evs0)"
      by (cases "remove_files flt files st")
    from Cons.IH [OF r] Cons.prems r True show ?thesis by auto
  next
    case False
    obtain st0 evs0 where r: "remove_files flt files (AList.delete f st) = (st0, evs0)"
      by (cases "remove_files flt files (AList.delete f st)")
    from Cons.IH [OF r] Cons.prems r False show ?thesis by auto
  qed
qed

lemma save_and_cleanup_shape:
  assumes "save_and_cleanup flt d final processed st = (st', evs, out)"
  shows "(put_raises flt d \<and> st' = st \<and> evs = [PutObject d False] \<and> out = Raised S3Error) \<or>
         (\<not> put_raises flt d \<and> out = Returned \<and>
          (\<exists>revs. remove_files flt processed (AList.update d (Parquet final) st) = (st', revs) \<and>
                  evs = PutObject d True # revs))"
  using assms by (auto simp: save_and_cleanup_def split: if_splits prod.splits)

text \<open>
  The shape of a merge cycle: log entries, then nothing more, or a failed put, or a
  successful put followed by the deletion loop over the loaded files.
\<close>

lemma merge_shape:
  assumes m: "merge_previous_minute_data ts flt minute_str d st = (st', tr, out)"
  shows "\<exists>logs rest. tr = logs @ rest \<and> (\<forall>e \<in> set logs. \<exists>l. e = Log l) \<and>
           ((st' = st \<and> rest = []) \<or>
            (st' = st \<and> rest = [PutObject d False] \<and> put_raises flt d \<and> out = Raised S3Error) \<or>
            (\<not> put_raises flt d \<and> out = Returned \<and>
             (\<exists>final revs.
                remove_files flt (filter (loadable flt st) (target_files minute_str st))
                  (AList.update d (Parquet final) st) = (st', revs) \<and>
                rest = PutObject d True # revs)))"
proof (cases "list_raises flt \<or> target_files minute_str st = []")
  case True
  with m have "st' = st" "tr = [] @ [] \<or> tr = [Log LError] @ []"
    by (auto simp: merge_previous_minute_data_def Let_def split: if_splits)
  moreover have "\<forall>e \<in> set []. \<exists>l. e = Log l" "\<forall>e \<in> set [Log LError]. \<exists>l. e = Log l"
    by simp_all
  ultimately show ?thesis by blast
next
  case False
  obtain dfs processed evs where
    l: "load_minute_files flt st (target_files minute_str st) = (dfs, processed, evs)"
    by (cases "load_minute_files flt st (target_files minute_str st)")
  from load_minute_files_processed [OF l] have
    p: "processed = filter (loadable flt st) (target_files minute_str st)" and
    lg: "\<forall>e \<in> set evs. \<exists>l. e = Log l" by auto
  show ?thesis
  proof (cases "dfs = []")
    case True
    with m False l have "st' = st" "tr = evs @ []"
      by (auto simp: merge_previous_minute_data_def Let_def)
    with lg show ?thesis by blast
  next
    case ne: False
    show ?thesis
    proof (cases "read_object flt st d")
      case (Frame existing_df)
      obtain st1 evs1 out1 where
        s: "save_and_cleanup flt d (merge_frames ts (Some existing_df) dfs) processed st
              = (st1, evs1, out1)"
        by (cases "save_and_cleanup flt d (merge_frames ts (Some existing_df) dfs) processed st")
      with m False l ne Frame have e: "st' = st1" "tr = evs @ evs1" "out = out1"
        by (auto simp: merge_previous_minute_data_def Let_def)
      from save_and_cleanup_shape [OF s] e p lg show ?thesis by blast
    next
      case NoSuchKey
      obtain st1 evs1 out1 where
        s: "save_and_cleanup flt d (merge_frames ts None dfs) processed st = (st1, evs1, out1)"
        by (cases "save_and_cleanup flt d (merge_frames ts None dfs) processed st")
      with m False l ne NoSuchKey have e: "st' = st1" "tr = evs @ evs1" "out = out1"
        by (auto simp: merge_previous_minute_data_def Let_def)
      from save_and_cleanup_shape [OF s] e p lg show ?thesis by blast
    next
      case S3Failure
      with m False l ne have "st' = st" "tr = (evs @ [Log LError]) @ []"
        by (auto simp: merge_previous_minute_data_def Let_def)
      moreover from lg have "\<forall>e \<in> set (evs @ [Log LError]). \<exists>l. e = Log l" by auto
      ultimately show ?thesis by blast
    next
      case Unreadable
      with m False l ne have "st' = st" "tr = evs @ []"
        by (auto simp: merge_previous_minute_data_def Let_def)
      with lg show ?thesis by blast
    qed
  qed
qed

lemma remove_requests_logs:
  "\<forall>e \<in> set logs. \<exists>l. e = Log l \<Longrightarrow>
     remove_requests (logs @ rest) = remove_requests rest \<and>
     removed (logs @ rest) = removed rest"
  by (induction logs) auto

lemma put_not_in_logs: "\<forall>e \<in> set logs. \<exists>l. e = Log l \<Longrightarrow> PutObject name b \<notin> set logs"
  by auto

text \<open>
  Claim C4. In every merge cycle, each deletion request for a minute artifact comes after
  the put of the daily artifact has returned; when the put raises, no deletion is
  requested and the bucket is unchanged.
\<close>

theorem delete_only_after_put:
  assumes "merge_previous_minute_data ts flt minute_str daily_file st = (st', tr, out)"
  shows "(\<forall>i name b. i < length tr \<and> tr ! i = RemoveObject name b \<longrightarrow>
            (\<exists>j<i. tr ! j = PutObject daily_file True)) \<and>
         (put_raises flt daily_file \<longrightarrow> remove_requests tr = [] \<and> st' = st)"
proof -
  from merge_shape [OF assms] obtain logs rest where
    tr: "tr = logs @ rest" and lg: "\<forall>e \<in> set logs. \<exists>l. e = Log l" and
    c: "(st' = st \<and> rest = []) \<or>
        (st' = st \<and> rest = [PutObject daily_file False] \<and> put_raises flt daily_file \<and>
         out = Raised S3Error) \<or>
        (\<not> put_raises flt daily_file \<and> out = Returned \<and>
         (\<exists>final revs.
            remove_files flt (filter (loadable flt st) (target_files minute_str st))
              (AList.update daily_file (Parquet final) st) = (st', revs) \<and>
            rest = PutObject daily_file True # revs))"
    by blast
  have order: "\<exists>j<i. tr ! j = PutObject daily_file True"
    if i: "i < length tr" and r: "tr ! i = RemoveObject name b" for i name b
  proof -
    have ge: "length logs \<le> i"
    proof (rule ccontr)
      assume "\<not> length logs \<le> i"
      then have "i < length logs" by simp
      with tr r have "logs ! i = RemoveObject name b" by (simp add: nth_append)
      moreover from \<open>i < length logs\<close> have "logs ! i \<in> set logs" by simp
      ultimately show False using lg by auto
    qed
    with tr r have ri: "rest ! (i - length logs) = RemoveObject name b"
      by (simp add: nth_append)
    from i tr ge have il: "i - length logs < length rest" by simp
    from c ri il obtain revs where rest: "rest = PutObject daily_file True # revs"
      by (auto simp: nth_Cons split: nat.splits)
    with ri have "i - length logs \<noteq> 0" by (auto simp: nth_Cons split: nat.splits)
    with ge have "length logs < i" by simp
    moreover from tr rest have "tr ! length logs = PutObject daily_file True"
      by (simp add: nth_append)
    ultimately show ?thesis by blast
  qed
  have "remove_requests tr = [] \<and> st' = st" if "put_raises flt daily_file"
    using c that tr remove_requests_logs [OF lg, of rest] by auto
  with order show ?thesis by blast
qed

theorem delete_only_after_put_witness:
  "merge_previous_minute_data fst ex_no_faults ex_minute ex_daily_file ex_store =
     ([(ex_daily_file, Parquet [(1, ''a'')])],
      [PutObject ex_daily_file True, RemoveObject ex_minute_file True], Returned) \<and>
   (\<exists>j<1. [PutObject ex_daily_file True, RemoveObject ex_minute_file True] ! j
            = PutObject ex_daily_file True) \<and>
   put_raises ex_put_fails ex_daily_file \<and>
   merge_previous_minute_data fst ex_put_fails ex_minute ex_daily_file ex_store =
     (ex_store, [PutObject ex_daily_file False], Raised S3Error) \<and>
   remove_requests [PutObject ex_daily_file False] = []"
proof -
  have h: "put_raises ex_put_fails ex_daily_file" by (simp add: store_ex_defs)
  from delete_only_after_put [OF ex_merge_ok, THEN conjunct1, rule_format, of 1 ex_minute_file True]
  have a: "\<exists>j<1. [PutObject ex_daily_file True, RemoveObject ex_minute_file True] ! j
            = PutObject ex_daily_file True" by simp
  from delete_only_after_put [OF ex_merge_put_fails, THEN conjunct2, THEN mp, OF h]
  have b: "remove_requests [PutObject ex_daily_file False] = []" by simp
  from a b h ex_merge_ok ex_merge_put_fails show ?thesis by blast
qed

text \<open>
  Claim C10, as the code has it. In every merge cycle the minute artifacts deleted are
  among those that the cycle downloaded, parsed and found non-empty. When the put of the
  daily artifact returns, deletion is requested for exactly those artifacts, in order, and
  takes effect for each whose \<^verbatim>\<open>remove_object\<close> call returns. In any other cycle no
  deletion is requested and the bucket is unchanged.
\<close>

theorem deleted_are_loaded:
  assumes "merge_previous_minute_data ts flt minute_str daily_file st = (st', tr, out)"
  shows "set (removed tr) \<subseteq> set (filter (loadable flt st) (target_files minute_str st)) \<and>
         (PutObject daily_file True \<in> set tr \<longrightarrow>
            remove_requests tr = filter (loadable flt st) (target_files minute_str st) \<and>
            removed tr = filter (\<lambda>f. \<not> remove_raises flt f)
                           (filter (loadable flt st) (target_files minute_str st))) \<and>
         (PutObject daily_file True \<notin> set tr \<longrightarrow> remove_requests tr = [] \<and> st' = st)"
proof -
  from merge_shape [OF assms] obtain logs rest where
    tr: "tr = logs @ rest" and lg: "\<forall>e \<in> set logs. \<exists>l. e = Log l" and
    c: "(st' = st \<and> rest = []) \<or>
        (st' = st \<and> rest = [PutObject daily_file False] \<and> put_raises flt daily_file \<and>
         out = Raised S3Error) \<or>
        (\<not> put_raises flt daily_file \<and> out = Returned \<and>
         (\<exists>final revs.
            remove_files flt (filter (loadable flt st) (target_files minute_str st))
              (AList.update daily_file (Parquet final) st) = (st', revs) \<and>
            rest = PutObject daily_file True # revs))"
    by blast
  note rl = remove_requests_logs [OF lg, of rest]
  note pl = put_not_in_logs [OF lg, of daily_file True]
  from c show ?thesis
  proof (elim disjE conjE exE)
    assume "st' = st" "rest = []"
    with tr rl pl show ?thesis by simp
  next
    assume "st' = st" "rest = [PutObject daily_file False]"
    with tr rl pl show ?thesis by simp
  next
    fix final revs
    assume r: "remove_files flt (filter (loadable flt st) (target_files minute_str st))
              (AList.update daily_file (Parquet final) st) = (st', revs)"
      and rest: "rest = PutObject daily_file True # revs"
    from remove_files_events [OF r] rest tr rl show ?thesis by auto
  qed
qed

theorem deleted_are_loaded_witness:
  "merge_previous_minute_data fst ex_no_faults ex_minute ex_daily_file ex_store =
     ([(ex_daily_file, Parquet [(1, ''a'')])],
      [PutObject ex_daily_file True, RemoveObject ex_minute_file True], Returned) \<and>
   PutObject ex_daily_file True
     \<in> set [PutObject ex_daily_file True, RemoveObject ex_minute_file True] \<and>
   filter (loadable ex_no_faults ex_store) (target_files ex_minute ex_store) = [ex_minute_file] \<and>
   merge_previous_minute_data fst ex_put_fails ex_minute ex_daily_file ex_store =
     (ex_store, [PutObject ex_daily_file False], Raised S3Error) \<and>
   PutObject ex_daily_file True \<notin> set [PutObject ex_daily_file False]"
proof -
  have h1: "PutObject ex_daily_file True
     \<in> set [PutObject ex_daily_file True, RemoveObject ex_minute_file True]" by simp
  have h2: "PutObject ex_daily_file True \<notin> set [PutObject ex_daily_file False]" by simp
  from deleted_are_loaded [OF ex_merge_ok, THEN conjunct2, THEN conjunct1, THEN mp, OF h1]
  have a: "filter (loadable ex_no_faults ex_store) (target_files ex_minute ex_store)
             = [ex_minute_file]" by simp
  from deleted_are_loaded [OF ex_merge_put_fails, THEN conjunct2, THEN conjunct2, THEN mp, OF h2]
  have "remove_requests [PutObject ex_daily_file False] = []" by simp
  with a h1 h2 ex_merge_ok ex_merge_put_fails show ?thesis by blast
qed

theorem deleted_not_exactly_loaded_counterexample:
  "set (removed (fst (snd (merge_previous_minute_data fst ex_put_fails ex_minute ex_daily_file
                             ex_store))))
     \<noteq> set (filter (loadable ex_put_fails ex_store) (target_files ex_minute ex_store))"
  by (simp add: ex_merge_put_fails ex_loadable)

section \<open>Properties of the batch coordinator and of unreadable artifacts\<close>








lemma criterion_met_examples:
  "criterion_met 5 4 \<and> \<not> criterion_met 5 3 \<and> criterion_met 0 1 \<and> \<not> criterion_met 0 0"
  by (simp add: criterion_met_def)







lemma week_save_unreadable:
  assumes "all_docs \<noteq> []" "has_ts \<longrightarrow> filter in_week (to_kst all_docs) \<noteq> []"
    "\<not> put_raises flt name" "n > 0 \<longrightarrow> read_object flt st name = Unreadable"
  shows "process_and_save_week_data ts to_kst has_ts in_week flt all_docs name n st =
           (AList.update name (Parquet (if has_ts then filter in_week (to_kst all_docs)
                                        else all_docs)) st,
            (if has_ts then [] else [Log LWarning]) @ (if n > 0 then [Log LError] else []) @
              [PutObject name True],
            True)"
  using assms by (auto simp: process_and_save_week_data_def Let_def)





lemma read_object_corrupt:
  "map_of st name = Some Corrupt \<Longrightarrow> \<not> get_raises flt name \<Longrightarrow>
     read_object flt st name = Unreadable"
  by (simp add: read_object_def)

lemma process_week_corrupt_existing:
  assumes c: "map_of st name = Some Corrupt" "\<not> get_raises flt name"
    and p: "process_week ts to_kst has_ts in_week flt fetch expected week_num name ck st
              = (ck', st', evs, ws)"
    and docs: "docs = drop_duplicates
                 (fst (fetch_attempts expected (map fetch [0..<max_attempts]) [] None))"
    and new_df: "new_df = (if has_ts then filter in_week (to_kst docs) else docs)"
  shows "Log LWarning \<in> set evs \<and>
         (docs \<noteq> [] \<and> (has_ts \<longrightarrow> new_df \<noteq> []) \<and> \<not> put_raises flt name \<longrightarrow>
            st' = AList.update name (Parquet new_df) st \<and> PutObject name True \<in> set evs)"
proof -
  note u = read_object_corrupt [OF c]
  obtain docs0 ok err where
    f: "fetch_attempts expected (map fetch [0..<max_attempts]) [] None = (docs0, ok, err)"
    by (cases "fetch_attempts expected (map fetch [0..<max_attempts]) [] None")
  with docs have d: "docs = drop_duplicates docs0" by simp
  show ?thesis
  proof (cases "docs \<noteq> [] \<and> (has_ts \<longrightarrow> new_df \<noteq> []) \<and> \<not> put_raises flt name")
    case True
    with new_df have
      "process_and_save_week_data ts to_kst has_ts in_week flt docs name 0 st =
         (AList.update name (Parquet new_df) st,
          (if has_ts then [] else [Log LWarning]) @ [] @ [PutObject name True], True)"
      using week_save_unreadable [of docs has_ts in_week to_kst flt name 0 st ts] by simp
    with p c u f d True show ?thesis
      by (auto simp: process_week_def Let_def split: if_splits)
  next
    case False
    obtain st1 sevs saved where
      "process_and_save_week_data ts to_kst has_ts in_week flt docs name 0 st
         = (st1, sevs, saved)"
      by (cases "process_and_save_week_data ts to_kst has_ts in_week flt docs name 0 st")
    with p c u f d have "Log LWarning \<in> set evs"
      by (auto simp: process_week_def Let_def split: if_splits)
    with False show ?thesis by blast
  qed
qed

text \<open>
  The weekly paths on an unreadable existing artifact: \<^verbatim>\<open>process_and_save_week_data\<close>
  logs an error and saves the new rows alone, and the coordinator's first look at the
  artifact logs a warning, counts no existing records and goes on to save the fresh rows
  alone.
\<close>

lemma weekly_artifact_unreadable:
  "(read_object flt st name = Unreadable \<and> all_docs \<noteq> [] \<and>
      (has_ts \<longrightarrow> filter in_week (to_kst all_docs) \<noteq> []) \<and> \<not> put_raises flt name \<longrightarrow>
      process_and_save_week_data ts to_kst has_ts in_week flt all_docs name n st =
        (AList.update name (Parquet (if has_ts then filter in_week (to_kst all_docs)
                                     else all_docs)) st,
         (if has_ts then [] else [Log LWarning]) @ (if n > 0 then [Log LError] else []) @
           [PutObject name True],
         True)) \<and>
   (map_of st name = Some Corrupt \<and> \<not> get_raises flt name \<and>
      process_week ts to_kst has_ts in_week flt fetch expected week_num name ck st
        = (ck', st', evs, ws) \<and>
      docs = drop_duplicates (fst (fetch_attempts expected (map fetch [0..<max_attempts]) [] None)) \<and>
      new_df = (if has_ts then filter in_week (to_kst docs) else docs) \<longrightarrow>
      Log LWarning \<in> set evs \<and>
      (docs \<noteq> [] \<and> (has_ts \<longrightarrow> new_df \<noteq> []) \<and> \<not> put_raises flt name \<longrightarrow>
         st' = AList.update name (Parquet new_df) st \<and> PutObject name True \<in> set evs))"
proof (intro conjI impI, goal_cases)
  case 1
  then show ?case
    using week_save_unreadable [of all_docs has_ts in_week to_kst flt name n st ts] by simp
next
  case 2
  then show ?case
    using process_week_corrupt_existing
      [of st name flt ts to_kst has_ts in_week fetch expected week_num ck ck' st' evs ws docs new_df]
    by blast
next
  case 3
  then show ?case
    using process_week_corrupt_existing
      [of st name flt ts to_kst has_ts in_week fetch expected week_num ck ck' st' evs ws docs new_df]
    by blast
next
  case 4
  then show ?case
    using process_week_corrupt_existing
      [of st name flt ts to_kst has_ts in_week fetch expected week_num ck ck' st' evs ws docs new_df]
    by blast
qed

text \<open>
  Claim C7. A deserialization error while reading an existing artifact is to be treated
  as if the artifact were absent: the operation goes on with the fresh data, logs, and
  does not abort. The weekly save does so: on a bucket whose weekly artifact is corrupt
  it logs and stores the fresh rows alone. The merge cycle does not: on a bucket with one
  loadable minute artifact and a corrupt daily artifact, the read error leaves
  \<^verbatim>\<open>merge_previous_minute_data\<close> as an exception, nothing is logged and the daily
  artifact is not written.
\<close>

theorem daily_unreadable_aborts:
  "read_object ex_no_faults ex_store_corrupt_daily ex_daily_file = Unreadable \<and>
   merge_previous_minute_data fst ex_no_faults ex_minute ex_daily_file ex_store_corrupt_daily =
     (ex_store_corrupt_daily, [], Raised ParquetError) \<and>
   read_object ex_no_faults ex_store_corrupt_week ex_week_file = Unreadable \<and>
   process_and_save_week_data fst ex_to_kst True ex_in_week ex_no_faults [(1, ''a'')]
       ex_week_file 3 ex_store_corrupt_week =
     ([(ex_week_file, Parquet [(1, ''a'')])], [Log LError, PutObject ex_week_file True], True)"
  by code_simp

section \<open>Properties of the window fetcher and the minute collector\<close>

lemmas fetch_ex_defs = ex_initial_ok_def ex_initial_down_def ex_doc_to_kst_def
  ex_collector_state_def


lemma retries_Nil: "retries a a = []"
  by (simp add: retries_def)

lemma retries_Cons:
  "a < b \<Longrightarrow> retries a b =
     InitialRequest a False # Sleep (min (2 ^ a) 10) # retries (Suc a) b"
  by (simp add: retries_def upt_conv_Cons)

lemma attempt_loop_retries:
  "b - a = k \<Longrightarrow> a \<le> b \<Longrightarrow> b < n \<Longrightarrow> \<forall>i. a \<le> i \<and> i < b \<longrightarrow> initial i = RequestFailed \<Longrightarrow>
   attempt_loop keep initial pages n [a..<n] acc =
     (fst (attempt_loop keep initial pages n [b..<n] acc),
      retries a b @ snd (attempt_loop keep initial pages n [b..<n] acc))"
proof (induction k arbitrary: a)
  case 0
  then have "a = b" by simp
  then show ?case by (simp add: retries_Nil)
next
  case (Suc k)
  then have ab: "a < b" and an: "a < n" by simp_all
  from Suc.prems ab have f: "initial a = RequestFailed" by simp
  from ab Suc.prems have nl: "int a \<noteq> int n - 1" by simp
  have ih: "attempt_loop keep initial pages n [Suc a..<n] acc =
     (fst (attempt_loop keep initial pages n [b..<n] acc),
      retries (Suc a) b @ snd (attempt_loop keep initial pages n [b..<n] acc))"
    using Suc.prems ab by (intro Suc.IH) auto
  from an have "[a..<n] = a # [Suc a..<n]" by (simp add: upt_conv_Cons)
  with f nl ih ab show ?case by (simp add: retries_Cons)
qed

lemma fetch_exhausted:
  assumes "n > 0" "\<forall>i<n. initial i = RequestFailed"
  shows "fetch_elasticsearch_data_paginated keep initial pages n =
           ([], retries 0 (n - 1) @ [InitialRequest (n - 1) False])"
proof -
  from assms(1) obtain m where n: "n = Suc m" by (cases n) auto
  with assms(2) have "initial m = RequestFailed" by simp
  with n have "attempt_loop keep initial pages n [n - 1..<n] [] =
      ([], [InitialRequest (n - 1) False])"
    by simp
  moreover have "attempt_loop keep initial pages n [0..<n] [] =
     (fst (attempt_loop keep initial pages n [n - 1..<n] []),
      retries 0 (n - 1) @ snd (attempt_loop keep initial pages n [n - 1..<n] []))"
    using assms by (intro attempt_loop_retries [OF refl]) auto
  ultimately show ?thesis by (simp add: fetch_elasticsearch_data_paginated_def)
qed

lemma fetch_after_retries:
  assumes "k < n" "\<forall>i<k. initial i = RequestFailed" "initial k = Hits hits" "hits \<noteq> []"
  shows "fetch_elasticsearch_data_paginated keep initial pages n =
           (fst (scroll_loop keep pages (map (project keep) hits)),
            retries 0 k @ InitialRequest k True #
              snd (scroll_loop keep pages (map (project keep) hits)) @ [ClearScroll])"
proof -
  from assms(1) have "[k..<n] = k # [Suc k..<n]" by (simp add: upt_conv_Cons)
  with assms(3,4) have "attempt_loop keep initial pages n [k..<n] [] =
     (fst (scroll_loop keep pages (map (project keep) hits)),
      InitialRequest k True # snd (scroll_loop keep pages (map (project keep) hits)) @ [ClearScroll])"
    by (simp add: split_beta)
  moreover have "attempt_loop keep initial pages n [0..<n] [] =
     (fst (attempt_loop keep initial pages n [k..<n] []),
      retries 0 k @ snd (attempt_loop keep initial pages n [k..<n] []))"
    using assms by (intro attempt_loop_retries [OF refl]) auto
  ultimately show ?thesis by (simp add: fetch_elasticsearch_data_paginated_def)
qed

lemma scroll_loop_failure:
  "\<forall>p \<in> set ps. p \<noteq> [] \<Longrightarrow>
   scroll_loop keep (map Hits ps @ RequestFailed # rest) acc =
     (acc @ concat (map (map (project keep)) ps),
      replicate (length ps) (ScrollRequest True) @ [ScrollRequest False])"
  by (induction ps arbitrary: acc) simp_all

text \<open>
  Claim C8, as the code has it. A failure of the scroll-opening request is retried, after
  a sleep of \<open>min (2 ^ attempt) 10\<close> seconds, for up to \<open>max_retries\<close> attempts; when
  every attempt fails the fetcher returns the documents accumulated so far, which is the
  empty list, without sleeping after the last attempt. A failure of a later scroll request
  is not retried: the fetcher stops and returns every document accumulated so far.
\<close>

theorem fetch_retry_and_partial_result:
  "(n > 0 \<and> (\<forall>i<n. initial i = RequestFailed) \<longrightarrow>
      fetch_elasticsearch_data_paginated keep initial pages n =
        ([], retries 0 (n - 1) @ [InitialRequest (n - 1) False])) \<and>
   (k < n \<and> (\<forall>i<k. initial i = RequestFailed) \<and> initial k = Hits hits \<and> hits \<noteq> [] \<longrightarrow>
      fetch_elasticsearch_data_paginated keep initial pages n =
        (fst (scroll_loop keep pages (map (project keep) hits)),
         retries 0 k @ InitialRequest k True #
           snd (scroll_loop keep pages (map (project keep) hits)) @ [ClearScroll])) \<and>
   ((\<forall>p \<in> set ps. p \<noteq> []) \<longrightarrow>
      scroll_loop keep (map Hits ps @ RequestFailed # rest) acc =
        (acc @ concat (map (map (project keep)) ps),
         replicate (length ps) (ScrollRequest True) @ [ScrollRequest False]))"
  using fetch_exhausted [of n initial keep pages]
    fetch_after_retries [of k n initial hits keep pages]
    scroll_loop_failure [of ps keep rest acc]
  by blast

lemma ex_retries: "retries 0 4 =
  [InitialRequest 0 False, Sleep 1, InitialRequest 1 False, Sleep 2,
   InitialRequest 2 False, Sleep 4, InitialRequest 3 False, Sleep 8]"
  by code_simp

theorem fetch_retry_and_partial_result_witness:
  "(5::nat) > 0 \<and> ex_initial_down 4 = RequestFailed \<and>
   fetch_elasticsearch_data_paginated ex_keep ex_initial_down [] 5 =
     ([], [InitialRequest 0 False, Sleep 1, InitialRequest 1 False, Sleep 2,
           InitialRequest 2 False, Sleep 4, InitialRequest 3 False, Sleep 8,
           InitialRequest 4 False]) \<and>
   [ex_doc1] \<noteq> [] \<and>
   scroll_loop ex_keep (map Hits [[ex_doc1]] @ RequestFailed # []) [] =
     ([] @ concat (map (map (project ex_keep)) [[ex_doc1]]),
      replicate (length [[ex_doc1]]) (ScrollRequest True) @ [ScrollRequest False])"
proof -
  have h1: "(5::nat) > 0 \<and> (\<forall>i<5. ex_initial_down i = RequestFailed)"
    by (simp add: ex_initial_down_def)
  have h2: "\<forall>p \<in> set [[ex_doc1]]. p \<noteq> []" by simp
  note t = fetch_retry_and_partial_result [where n = 5 and initial = ex_initial_down
      and keep = ex_keep and pages = "[]" and ps = "[[ex_doc1]]" and rest = "[]" and acc = "[]"]
  from t [THEN conjunct1, THEN mp, OF h1] ex_retries
  have a: "fetch_elasticsearch_data_paginated ex_keep ex_initial_down [] 5 =
     ([], [InitialRequest 0 False, Sleep 1, InitialRequest 1 False, Sleep 2,
           InitialRequest 2 False, Sleep 4, InitialRequest 3 False, Sleep 8,
           InitialRequest 4 False])" by simp
  note b = t [THEN conjunct2, THEN conjunct2, THEN mp, OF h2]
  have "ex_initial_down 4 = RequestFailed" by (simp add: ex_initial_down_def)
  with a b show ?thesis by simp
qed

theorem scroll_failure_not_retried_counterexample:
  "fetch_elasticsearch_data_paginated ex_keep ex_initial_ok [RequestFailed] 5 =
     ([project ex_keep ex_doc1], [InitialRequest 0 True, ScrollRequest False, ClearScroll])"
  by code_simp

text \<open>
  Claim C9. When the fetch for the target minute returns no document, the collector puts
  no artifact and leaves the bucket and the checkpoint file as they were; so a tick that
  changes the checkpoint file or the bucket, or issues a put, fetched at least one
  document.
\<close>

theorem empty_fetch_leaves_checkpoint:
  "(fst (fetch_elasticsearch_data keep initial pages) = [] \<longrightarrow>
      collect_current_minute_data to_kst keep flt write_raises name utc_minute_end
          target_minute one_hour_ago initial pages s = (s, [], Returned)) \<and>
   (collect_current_minute_data to_kst keep flt write_raises name utc_minute_end
        target_minute one_hour_ago initial pages s = (s', evs, out) \<and>
      (checkpoint_file s' \<noteq> checkpoint_file s \<or> bucket s' \<noteq> bucket s \<or>
       (\<exists>n b. PutObject n b \<in> set evs)) \<longrightarrow>
      fst (fetch_elasticsearch_data keep initial pages) \<noteq> [])"
  by (auto simp: collect_current_minute_data_def Let_def)

lemma ex_fetch_down: "fst (fetch_elasticsearch_data ex_keep ex_initial_down []) = []"
  by code_simp

lemma ex_collect:
  "collect_current_minute_data ex_doc_to_kst ex_keep ex_no_faults False ex_minute_file
     ''2025-05-31T15:01:00Z'' ''2025-06-01T00:00:00'' ''2025-05-31T14:00:00Z''
     ex_initial_ok [] ex_collector_state =
   (\<lparr>bucket = [(ex_minute_file, Parquet [project ex_keep ex_doc1])],
     checkpoint_file =
       JsonObject [(''last_timestamp'', JStr ''2025-05-31T15:01:00Z''),
                   (''last_processed_minute'', JStr ''2025-06-01T00:00:00'')]\<rparr>,
    [PutObject ex_minute_file True], Returned)"
  by code_simp

theorem empty_fetch_leaves_checkpoint_witness:
  "fst (fetch_elasticsearch_data ex_keep ex_initial_down []) = [] \<and>
   collect_current_minute_data ex_doc_to_kst ex_keep ex_no_faults False ex_minute_file
     ''2025-05-31T15:01:00Z'' ''2025-06-01T00:00:00'' ''2025-05-31T14:00:00Z''
     ex_initial_down [] ex_collector_state = (ex_collector_state, [], Returned) \<and>
   collect_current_minute_data ex_doc_to_kst ex_keep ex_no_faults False ex_minute_file
     ''2025-05-31T15:01:00Z'' ''2025-06-01T00:00:00'' ''2025-05-31T14:00:00Z''
     ex_initial_ok [] ex_collector_state =
   (\<lparr>bucket = [(ex_minute_file, Parquet [project ex_keep ex_doc1])],
     checkpoint_file =
       JsonObject [(''last_timestamp'', JStr ''2025-05-31T15:01:00Z''),
                   (''last_processed_minute'', JStr ''2025-06-01T00:00:00'')]\<rparr>,
    [PutObject ex_minute_file True], Returned) \<and>
   fst (fetch_elasticsearch_data ex_keep ex_initial_ok []) \<noteq> []"
proof -
  from empty_fetch_leaves_checkpoint [where keep = ex_keep and initial = ex_initial_down
      and pages = "[]" and to_kst = ex_doc_to_kst and flt = ex_no_faults
      and write_raises = False and name = ex_minute_file
      and utc_minute_end = "''2025-05-31T15:01:00Z''"
      and target_minute = "''2025-06-01T00:00:00''"
      and one_hour_ago = "''2025-05-31T14:00:00Z''" and s = ex_collector_state,
      THEN conjunct1, THEN mp, OF ex_fetch_down]
  have a: "collect_current_minute_data ex_doc_to_kst ex_keep ex_no_faults False ex_minute_file
     ''2025-05-31T15:01:00Z'' ''2025-06-01T00:00:00'' ''2025-05-31T14:00:00Z''
     ex_initial_down [] ex_collector_state = (ex_collector_state, [], Returned)" .
  have h: "\<exists>n b. PutObject n b \<in> set [PutObject ex_minute_file True]" by auto
  from empty_fetch_leaves_checkpoint [where keep = ex_keep and initial = ex_initial_ok
      and pages = "[]" and to_kst = ex_doc_to_kst and flt = ex_no_faults
      and write_raises = False and name = ex_minute_file
      and utc_minute_end = "''2025-05-31T15:01:00Z''"
      and target_minute = "''2025-06-01T00:00:00''"
      and one_hour_ago = "''2025-05-31T14:00:00Z''" and s = ex_collector_state
      and evs = "[PutObject ex_minute_file True]" and out = Returned,
      THEN conjunct2, THEN mp] ex_collect h
  have b: "fst (fetch_elasticsearch_data ex_keep ex_initial_ok []) \<noteq> []" by blast
  from a b ex_fetch_down ex_collect show ?thesis by blast
qed

end
